theory Spec2Isabelle
  imports Main "HOL-Library.Word"
begin

section \<open>Data model of the log-pattern aggregator (parser.go)\<close>

text \<open>
  The aggregator of parser.go counts log messages per pattern and, beside that, per
  detected secret. The embedding follows the first revision held in parser.go
  (lines 1-281): the one with \<open>PrecompiledPattern\<close> and a detector that stops at its
  first match. The older revision that follows it in the same file (lines 282-529) has the
  same \<open>inc\<close>; its \<open>NewParser\<close> drops the error of \<open>LoadPatterns\<close> (line 344), and its
  detector, which compiles each expression on the spot and has no break, is embedded as
  \<open>DetectSensitiveData_v0\<close>.

  The two worker goroutines, the decoder, the multiline collector and the lock of
  \<open>Parser\<close> are plumbing around \<open>inc\<close>: the lock makes each call of \<open>inc\<close> atomic,
  so the state machine below takes one message per step.
\<close>

text \<open>
  The level enumeration. level.go is not among the sources; parser.go names
  \<open>LevelUnknown\<close>, \<open>LevelDebug\<close> and \<open>LevelInfo\<close>, main.go names the other three.
\<close>

datatype Level =
  LevelUnknown | LevelDebug | LevelInfo | LevelWarning | LevelError | LevelCritical

text \<open>
  What can go wrong: a method call through a nil \<open>*Pattern\<close> (a panic in Go), and the
  error of \<open>json.Unmarshal\<close> on the embedded catalog.
\<close>

datatype error = NilPointerDereference | UnmarshalError

text \<open>The message handed to \<open>inc\<close> (declared in multiline.go; the fields parser.go reads).\<close>

record Message =
  Timestamp :: int
  Content :: string
  Level :: Level

text \<open>
  \<open>*regexp.Regexp\<close>. The engine is the Go standard library's; a compiled expression is
  taken as its source text together with the function giving the leftmost match in a
  string, if there is one. \<open>MatchString\<close>, \<open>FindString\<close> and \<open>String\<close> are the three
  methods parser.go calls: \<open>FindString\<close> returns the empty string when nothing matches.
\<close>

record Regexp =
  expr :: string
  leftmost :: "string \<Rightarrow> string option"

definition MatchString :: "Regexp \<Rightarrow> string \<Rightarrow> bool" where
  "MatchString re s = (leftmost re s \<noteq> None)"

definition FindString :: "Regexp \<Rightarrow> string \<Rightarrow> string" where
  "FindString re s = (case leftmost re s of None \<Rightarrow> [] | Some m \<Rightarrow> m)"

definition String :: "Regexp \<Rightarrow> string" where
  "String re = expr re"

record PrecompiledPattern =
  Name :: string
  Pattern :: Regexp

record SensitivePattern =
  Name_p :: string
  Pattern_p :: string

text \<open>
  \<open>*Pattern\<close> with \<open>NewPattern\<close>, \<open>Hash\<close> and \<open>WeakEqual\<close>. pattern.go is not among the
  sources, so the three operations are parameters of everything below: the theorems hold
  for every implementation of them.
\<close>

record 'p PatternOps =
  NewPattern :: "string \<Rightarrow> 'p"
  Hash :: "'p \<Rightarrow> string"
  WeakEqual :: "'p \<Rightarrow> 'p \<Rightarrow> bool"

record patternKey =
  level :: Level
  hash :: string

text \<open>
  \<open>patternStat\<close>: the \<open>pattern\<close> field is a pointer, nil in the stat that
  \<open>&patternStat{}\<close> creates. \<open>messages\<close> is a Go \<open>int\<close>: a signed machine word of
  the build's width \<open>'w\<close> (32 or 64 bits), read by \<open>sint\<close>; \<open>++\<close> on it wraps.
\<close>

record (overloaded) ('p, 'w) patternStat =
  pattern :: "'p option"
  sample :: string
  messages :: "'w word"

record sensitivePatternKey =
  pattern_k :: string
  hash_k :: string

record (overloaded) ('p, 'w) sensitivePatternStat =
  pattern_s :: "'p option"
  sample_s :: string
  messages_s :: "'w word"
  sensitiveKey :: string
  regex_s :: string
  name_s :: string
  hash_s :: string

record SensitivePatternMatch =
  sensitivePatternKey_m :: sensitivePatternKey
  regex_m :: string
  name_m :: string
  hash_m :: string

record (overloaded) 'w LogCounter =
  Level_c :: Level
  Hash_c :: string
  Sample_c :: string
  Messages_c :: "'w word"

record (overloaded) 'w SensitiveLogCounter =
  Sample_sc :: string
  Messages_sc :: "'w word"
  Pattern_sc :: string
  Regex_sc :: string
  Name_sc :: string
  Hash_sc :: string

text \<open>
  The fields of \<open>Parser\<close> that \<open>inc\<close> reads and writes. The two Go maps are partial
  functions. \<open>onMsgCb\<close> says whether a callback is installed; what the callback is called
  with is recorded, in order, in \<open>onMsgCb_calls\<close>.
\<close>

record (overloaded) ('p, 'w) Parser =
  patterns :: "patternKey \<rightharpoonup> ('p, 'w) patternStat"
  onMsgCb :: bool
  onMsgCb_calls :: "(int \<times> Level \<times> string \<times> string) list"
  sensitivePatternsDefinations :: "PrecompiledPattern list"
  sensitivePatterns :: "sensitivePatternKey \<rightharpoonup> ('p, 'w) sensitivePatternStat"
  disableSensitivePatternDetection :: bool

section \<open>The sensitive-data detector\<close>

text \<open>
  parser.go:246-260. The loop appends the match of the first entry whose expression
  matches the line and breaks.
\<close>

fun DetectSensitiveData ::
  "string \<Rightarrow> string \<Rightarrow> PrecompiledPattern list \<Rightarrow> SensitivePatternMatch list" where
  "DetectSensitiveData line h [] = []"
| "DetectSensitiveData line h (precompiled # rest) =
     (if MatchString (Pattern precompiled) line then
        [\<lparr>sensitivePatternKey_m =
            \<lparr>pattern_k = FindString (Pattern precompiled) line, hash_k = h\<rparr>,
          regex_m = String (Pattern precompiled),
          name_m = Name precompiled,
          hash_m = h\<rparr>]
      else DetectSensitiveData line h rest)"

text \<open>
  parser.go:509-529, the older revision: every entry is compiled on the spot
  (\<open>compile\<close> stands for \<open>regexp.Compile\<close>, \<open>None\<close> when it fails) and every match
  is appended; there is no break.
\<close>

fun DetectSensitiveData_v0 ::
  "(string \<Rightarrow> Regexp option) \<Rightarrow> string \<Rightarrow> string \<Rightarrow> SensitivePattern list
     \<Rightarrow> sensitivePatternKey list" where
  "DetectSensitiveData_v0 compile line h [] = []"
| "DetectSensitiveData_v0 compile line h (sp # rest) =
     (case compile (Pattern_p sp) of
        None \<Rightarrow> DetectSensitiveData_v0 compile line h rest
      | Some re \<Rightarrow>
          if MatchString re line then
            \<lparr>pattern_k = FindString re line, hash_k = h\<rparr>
              # DetectSensitiveData_v0 compile line h rest
          else DetectSensitiveData_v0 compile line h rest)"

text \<open>\<open>strings.Contains\<close>, for stating which words a line holds.\<close>

fun hasPrefix :: "string \<Rightarrow> string \<Rightarrow> bool" where
  "hasPrefix s [] = True"
| "hasPrefix [] (c # cs) = False"
| "hasPrefix (x # xs) (c # cs) = (x = c \<and> hasPrefix xs cs)"

fun contains :: "string \<Rightarrow> string \<Rightarrow> bool" where
  "contains [] sub = (sub = [])"
| "contains (x # xs) sub = (hasPrefix (x # xs) sub \<or> contains xs sub)"

text \<open>
  Two expressions to run the detector on: a literal, and a literal followed by one or
  more decimal digits (\<open>secret_code_\d+\<close> is of this shape). \<open>leftmost\<close> of each is the
  leftmost, longest such substring.
\<close>

definition isDigit :: "char \<Rightarrow> bool" where
  "isDigit c = (c \<in> set ''0123456789'')"

fun findLiteral :: "string \<Rightarrow> string \<Rightarrow> string option" where
  "findLiteral lit [] = (if lit = [] then Some [] else None)"
| "findLiteral lit (x # xs) =
     (if hasPrefix (x # xs) lit then Some lit else findLiteral lit xs)"

fun findLiteralDigits :: "string \<Rightarrow> string \<Rightarrow> string option" where
  "findLiteralDigits lit [] = None"
| "findLiteralDigits lit (x # xs) =
     (if hasPrefix (x # xs) lit \<and> takeWhile isDigit (drop (length lit) (x # xs)) \<noteq> []
      then Some (lit @ takeWhile isDigit (drop (length lit) (x # xs)))
      else findLiteralDigits lit xs)"

definition literal :: "string \<Rightarrow> Regexp" where
  "literal lit = \<lparr>expr = lit, leftmost = findLiteral lit\<rparr>"

definition literalDigits :: "string \<Rightarrow> Regexp" where
  "literalDigits lit = \<lparr>expr = lit @ CHR 0x5C # ''d+'', leftmost = findLiteralDigits lit\<rparr>"

section \<open>The aggregator\<close>

text \<open>
  Go visits the entries of a map in an order the language leaves open, and a new one at
  every \<open>range\<close> statement. Each \<open>range\<close> of the code therefore takes the order of
  its visit as an argument: a list of keys, read together with the map (a key the map
  does not hold is passed over). \<open>enumerates ks m\<close> says that \<open>ks\<close> is an order Go can
  use on \<open>m\<close>: every key of the map, once.
\<close>

definition enumerates :: "'k list \<Rightarrow> ('k \<rightharpoonup> 'v) \<Rightarrow> bool" where
  "enumerates ks m = (distinct ks \<and> set ks = dom m)"

text \<open>
  parser.go:145-150, the scan for a weak-equal stat of the message's level. The
  condition is \<open>k.level == msg.Level && ps.pattern.WeakEqual(pattern)\<close>: the method is
  called only on an entry of that level, and calling it through a nil \<open>pattern\<close> panics.
  The result is the key of the stat found: every stat is stored under one key, so the key
  stands for the pointer \<open>stat\<close>.
\<close>

fun scanPatterns ::
  "'p PatternOps \<Rightarrow> (patternKey \<rightharpoonup> ('p, 'w::len) patternStat) \<Rightarrow> Level \<Rightarrow> 'p \<Rightarrow> patternKey list
     \<Rightarrow> error + patternKey option" where
  "scanPatterns ops m lv pat [] = Inr None"
| "scanPatterns ops m lv pat (k # ks) =
     (case m k of
        None \<Rightarrow> scanPatterns ops m lv pat ks
      | Some ps \<Rightarrow>
          if level k = lv then
            (case pattern ps of
               None \<Rightarrow> Inl NilPointerDereference
             | Some q \<Rightarrow>
                 if WeakEqual ops q pat then Inr (Some k)
                 else scanPatterns ops m lv pat ks)
          else scanPatterns ops m lv pat ks)"

text \<open>
  parser.go:143-155: the stat the message is counted in. Either the one under the
  message's own key, or the one the scan finds, or a new one stored under the message's
  own key (with \<open>messages\<close> zero until the increment of line 159).
\<close>

definition findStat ::
  "'p PatternOps \<Rightarrow> patternKey list \<Rightarrow> Message \<Rightarrow> 'p \<Rightarrow> patternKey
     \<Rightarrow> (patternKey \<rightharpoonup> ('p, 'w::len) patternStat)
     \<Rightarrow> error + (patternKey \<times> (patternKey \<rightharpoonup> ('p, 'w::len) patternStat))" where
  "findStat ops ks msg pat key m =
     (case m key of
        Some st \<Rightarrow> Inr (key, m)
      | None \<Rightarrow>
          (case scanPatterns ops m (Level msg) pat ks of
             Inl e \<Rightarrow> Inl e
           | Inr (Some k) \<Rightarrow> Inr (k, m)
           | Inr None \<Rightarrow>
               Inr (key, m(key \<mapsto> \<lparr>pattern = Some pat, sample = Content msg, messages = 0\<rparr>))))"

text \<open>\<open>stat.messages++\<close> on the stat stored under \<open>k\<close>; the addition is the word's and wraps.\<close>

definition bump :: "patternKey \<Rightarrow> (patternKey \<rightharpoonup> ('p, 'w::len) patternStat) \<Rightarrow> (patternKey \<rightharpoonup> ('p, 'w::len) patternStat)" where
  "bump k m = (case m k of None \<Rightarrow> m | Some st \<Rightarrow> m(k \<mapsto> st\<lparr>messages := messages st + 1\<rparr>))"

definition bump_s ::
  "sensitivePatternKey \<Rightarrow> (sensitivePatternKey \<rightharpoonup> ('p, 'w::len) sensitivePatternStat)
     \<Rightarrow> (sensitivePatternKey \<rightharpoonup> ('p, 'w::len) sensitivePatternStat)" where
  "bump_s k m = (case m k of None \<Rightarrow> m | Some st \<Rightarrow> m(k \<mapsto> st\<lparr>messages_s := messages_s st + 1\<rparr>))"

text \<open>The call of the callback, when one is installed.\<close>

definition callback :: "int \<times> Level \<times> string \<times> string \<Rightarrow> ('p, 'w::len) Parser \<Rightarrow> ('p, 'w::len) Parser" where
  "callback c p = (if onMsgCb p then p\<lparr>onMsgCb_calls := onMsgCb_calls p @ [c]\<rparr> else p)"

text \<open>parser.go:173-178, the scan of the sensitive stats.\<close>

fun scanSensitive ::
  "'p PatternOps \<Rightarrow> (sensitivePatternKey \<rightharpoonup> ('p, 'w::len) sensitivePatternStat) \<Rightarrow> string \<Rightarrow> 'p
     \<Rightarrow> sensitivePatternKey list \<Rightarrow> error + sensitivePatternKey option" where
  "scanSensitive ops m sub pat [] = Inr None"
| "scanSensitive ops m sub pat (k # ks) =
     (case m k of
        None \<Rightarrow> scanSensitive ops m sub pat ks
      | Some ps \<Rightarrow>
          if pattern_k k = sub then
            (case pattern_s ps of
               None \<Rightarrow> Inl NilPointerDereference
             | Some q \<Rightarrow>
                 if WeakEqual ops q pat then Inr (Some k)
                 else scanSensitive ops m sub pat ks)
          else scanSensitive ops m sub pat ks)"

text \<open>parser.go:170-184, the body of the loop over the matches.\<close>

definition countMatch ::
  "'p PatternOps \<Rightarrow> sensitivePatternKey list \<Rightarrow> Message \<Rightarrow> 'p \<Rightarrow> SensitivePatternMatch
     \<Rightarrow> ('p, 'w::len) Parser \<Rightarrow> error + ('p, 'w::len) Parser" where
  "countMatch ops sks msg pat match p =
     (let sKey = sensitivePatternKey_m match; m = sensitivePatterns p in
      case m sKey of
        Some st \<Rightarrow> Inr (p\<lparr>sensitivePatterns := bump_s sKey m\<rparr>)
      | None \<Rightarrow>
          (case scanSensitive ops m (pattern_k sKey) pat sks of
             Inl e \<Rightarrow> Inl e
           | Inr (Some k) \<Rightarrow> Inr (p\<lparr>sensitivePatterns := bump_s k m\<rparr>)
           | Inr None \<Rightarrow>
               Inr (p\<lparr>sensitivePatterns := bump_s sKey
                 (m(sKey \<mapsto> \<lparr>pattern_s = Some pat, sample_s = Content msg, messages_s = 0,
                     sensitiveKey = pattern_k sKey, regex_s = regex_m match,
                     name_s = name_m match, hash_s = hash_k sKey\<rparr>))\<rparr>)))"

fun countMatches ::
  "'p PatternOps \<Rightarrow> sensitivePatternKey list \<Rightarrow> Message \<Rightarrow> 'p \<Rightarrow> SensitivePatternMatch list
     \<Rightarrow> ('p, 'w::len) Parser \<Rightarrow> error + ('p, 'w::len) Parser" where
  "countMatches ops sks msg pat [] p = Inr p"
| "countMatches ops sks msg pat (match # rest) p =
     (case countMatch ops sks msg pat match p of
        Inl e \<Rightarrow> Inl e
      | Inr p' \<Rightarrow> countMatches ops sks msg pat rest p')"

text \<open>parser.go:164-186.\<close>

definition processSensitivePattern ::
  "'p PatternOps \<Rightarrow> sensitivePatternKey list \<Rightarrow> Message \<Rightarrow> ('p, 'w::len) Parser \<Rightarrow> 'p
     \<Rightarrow> error + ('p, 'w::len) Parser" where
  "processSensitivePattern ops sks msg p pat =
     (if disableSensitivePatternDetection p then Inr p
      else countMatches ops sks msg pat
             (DetectSensitiveData (Content msg) (Hash ops pat) (sensitivePatternsDefinations p)) p)"

text \<open>
  parser.go:123-162. \<open>ks\<close> is the order of the \<open>range\<close> over \<open>p.patterns\<close>, \<open>sks\<close> the
  order of the \<open>range\<close> over \<open>p.sensitivePatterns\<close>. A panic is the result \<open>Inl\<close>.
\<close>

definition inc ::
  "'p PatternOps \<Rightarrow> patternKey list \<Rightarrow> sensitivePatternKey list \<Rightarrow> Message \<Rightarrow> ('p, 'w::len) Parser
     \<Rightarrow> error + ('p, 'w::len) Parser" where
  "inc ops ks sks msg p =
     (if Level msg = LevelUnknown \<or> Level msg = LevelDebug \<or> Level msg = LevelInfo then
        let key = \<lparr>level = Level msg, hash = []\<rparr>;
            m = (case patterns p key of
                   None \<Rightarrow> (patterns p)(key \<mapsto> \<lparr>pattern = None, sample = [], messages = 0\<rparr>)
                 | Some st \<Rightarrow> patterns p);
            p1 = p\<lparr>patterns := bump key m\<rparr>;
            p2 = callback (Timestamp msg, Level msg, [], Content msg) p1;
            pat = NewPattern ops (Content msg)
        in processSensitivePattern ops sks msg p2 pat
      else
        let pat = NewPattern ops (Content msg);
            key = \<lparr>level = Level msg, hash = Hash ops pat\<rparr>
        in case findStat ops ks msg pat key (patterns p) of
             Inl e \<Rightarrow> Inl e
           | Inr (k, m) \<Rightarrow>
               let p1 = callback (Timestamp msg, Level msg, hash key, Content msg)
                          (p\<lparr>patterns := m\<rparr>);
                   p2 = p1\<lparr>patterns := bump k (patterns p1)\<rparr>
               in processSensitivePattern ops sks msg p2 pat)"

text \<open>A run of \<open>inc\<close> over a list of messages, each with the orders of its two scans.\<close>

fun incAll ::
  "'p PatternOps \<Rightarrow> (patternKey list \<times> sensitivePatternKey list \<times> Message) list \<Rightarrow> ('p, 'w::len) Parser
     \<Rightarrow> error + ('p, 'w::len) Parser" where
  "incAll ops [] p = Inr p"
| "incAll ops ((ks, sks, msg) # rest) p =
     (case inc ops ks sks msg p of
        Inl e \<Rightarrow> Inl e
      | Inr p' \<Rightarrow> incAll ops rest p')"

text \<open>
  The states the aggregator can move to from \<open>p\<close>: any number of calls of \<open>inc\<close>, each
  scanning its maps in an order Go can use, none of them panicking.
\<close>

inductive runs :: "'p PatternOps \<Rightarrow> ('p, 'w::len) Parser \<Rightarrow> ('p, 'w::len) Parser \<Rightarrow> bool" for ops p where
  runs_refl: "runs ops p p"
| runs_step: "runs ops p q \<Longrightarrow> enumerates ks (patterns q)
     \<Longrightarrow> enumerates sks (sensitivePatterns q)
     \<Longrightarrow> inc ops ks sks msg q = Inr q' \<Longrightarrow> runs ops p q'"

text \<open>parser.go:188-196 and 198-206; \<open>ks\<close> is the order of the \<open>range\<close>.\<close>

definition GetCounters :: "patternKey list \<Rightarrow> ('p, 'w::len) Parser \<Rightarrow> 'w LogCounter list" where
  "GetCounters ks p =
     List.map_filter (\<lambda>k. case patterns p k of
         None \<Rightarrow> None
       | Some ps \<Rightarrow> Some \<lparr>Level_c = level k, Hash_c = hash k, Sample_c = sample ps,
                          Messages_c = messages ps\<rparr>) ks"

definition GetSensitiveCounters :: "sensitivePatternKey list \<Rightarrow> ('p, 'w::len) Parser \<Rightarrow> 'w SensitiveLogCounter list" where
  "GetSensitiveCounters sks p =
     List.map_filter (\<lambda>k. case sensitivePatterns p k of
         None \<Rightarrow> None
       | Some ps \<Rightarrow> Some \<lparr>Sample_sc = sample_s ps, Messages_sc = messages_s ps,
                          Pattern_sc = pattern_k k, Regex_sc = regex_s ps,
                          Name_sc = name_s ps, Hash_sc = hash_s ps\<rparr>) sks"

section \<open>The constructor\<close>

text \<open>
  parser.go:262-281. \<open>unmarshalled\<close> is what \<open>json.Unmarshal\<close> makes of the embedded
  sensitive_patterns.json (the file is not among the sources), \<open>compile\<close> stands for
  \<open>regexp.Compile\<close>. An entry that does not compile is logged and left out.
\<close>

definition LoadPatterns ::
  "(error + SensitivePattern list) \<Rightarrow> (string \<Rightarrow> Regexp option)
     \<Rightarrow> error + PrecompiledPattern list" where
  "LoadPatterns unmarshalled compile =
     (case unmarshalled of
        Inl err \<Rightarrow> Inl err
      | Inr sps \<Rightarrow>
          Inr (List.map_filter (\<lambda>sp. case compile (Pattern_p sp) of
                  None \<Rightarrow> None
                | Some re \<Rightarrow> Some \<lparr>Name = Name_p sp, Pattern = re\<rparr>) sps))"

text \<open>
  parser.go:63-117, up to the start of the two workers. The Go function has one result,
  the parser; the second component here is what it prints through \<open>log.Printf\<close>. When
  \<open>LoadPatterns\<close> fails its first result is nil, and that nil slice becomes the catalog.
\<close>

definition NewParser ::
  "(error + SensitivePattern list) \<Rightarrow> (string \<Rightarrow> Regexp option) \<Rightarrow> bool \<Rightarrow> bool
     \<Rightarrow> PrecompiledPattern list \<Rightarrow> ('p, 'w::len) Parser \<times> error list" where
  "NewParser unmarshalled compile onMsgCallback disableSensitiveDataDetection patternsCompiled =
     (let p = \<lparr>patterns = Map.empty, onMsgCb = onMsgCallback, onMsgCb_calls = [],
               sensitivePatternsDefinations = [], sensitivePatterns = Map.empty,
               disableSensitivePatternDetection = disableSensitiveDataDetection\<rparr>
      in if disableSensitiveDataDetection then (p\<lparr>sensitivePatternsDefinations := []\<rparr>, [])
         else if length patternsCompiled > 0
           then (p\<lparr>sensitivePatternsDefinations := patternsCompiled\<rparr>, [])
         else (case LoadPatterns unmarshalled compile of
                 Inl err \<Rightarrow> (p\<lparr>sensitivePatternsDefinations := []\<rparr>, [err])
               | Inr loaded \<Rightarrow> (p\<lparr>sensitivePatternsDefinations := loaded\<rparr>, [])))"

section \<open>An implementation of the pattern operations, to run the code on\<close>

text \<open>
  A stand-in for pattern.go, used only where a message has to be run through \<open>inc\<close>:
  a pattern is the list of the space-separated words of the content, its hash is written
  from all the words, and two patterns are weak-equal when they have the same number of
  words and differ only in words that hold a digit.
\<close>

fun fields :: "string \<Rightarrow> string \<Rightarrow> string list" where
  "fields w [] = (if w = [] then [] else [w])"
| "fields w (c # cs) =
     (if c = CHR '' '' then (if w = [] then fields [] cs else w # fields [] cs)
      else fields (w @ [c]) cs)"

definition wordsWeakEqual :: "string list \<Rightarrow> string list \<Rightarrow> bool" where
  "wordsWeakEqual a b =
     list_all2 (\<lambda>x y. x = y \<or> (list_ex isDigit x \<and> list_ex isDigit y)) a b"

definition wordPatterns :: "(string list) PatternOps" where
  "wordPatterns =
     \<lparr>NewPattern = fields [],
      Hash = (\<lambda>ws. CHR ''#'' # concat (map (\<lambda>w. w @ ''/'') ws)),
      WeakEqual = wordsWeakEqual\<rparr>"

section \<open>Notions the statements use\<close>

text \<open>
  The levels of the second branch of \<open>inc\<close>: those that are none of \<open>LevelUnknown\<close>,
  \<open>LevelDebug\<close>, \<open>LevelInfo\<close>.
\<close>

definition highSignal :: "Level \<Rightarrow> bool" where
  "highSignal lv = (lv = LevelWarning \<or> lv = LevelError \<or> lv = LevelCritical)"

text \<open>The key of the first branch of \<open>inc\<close> (line 128) and the key of the second (line 142).\<close>

definition lowKey :: "Message \<Rightarrow> patternKey" where
  "lowKey msg = \<lparr>level = Level msg, hash = []\<rparr>"

definition msgKey :: "'p PatternOps \<Rightarrow> Message \<Rightarrow> patternKey" where
  "msgKey ops msg = \<lparr>level = Level msg, hash = Hash ops (NewPattern ops (Content msg))\<rparr>"

text \<open>
  Two invariants of the maps: a stat with a nil pattern sits under a key \<open>(level, "")\<close> of
  a level of the first branch, and no sensitive stat has a nil pattern.
\<close>

definition patternsNonNil :: "(patternKey \<rightharpoonup> ('p, 'w::len) patternStat) \<Rightarrow> bool" where
  "patternsNonNil m =
     (\<forall>k st. m k = Some st \<longrightarrow> pattern st = None \<longrightarrow> \<not> highSignal (level k) \<and> hash k = [])"

definition sensitiveNonNil :: "(sensitivePatternKey \<rightharpoonup> ('p, 'w::len) sensitivePatternStat) \<Rightarrow> bool" where
  "sensitiveNonNil m = (\<forall>k st. m k = Some st \<longrightarrow> pattern_s st \<noteq> None)"

text \<open>
  A run whose scans all use orders Go can use, and in which no call panics.
\<close>

fun validOrders ::
  "'p PatternOps \<Rightarrow> (patternKey list \<times> sensitivePatternKey list \<times> Message) list \<Rightarrow> ('p, 'w::len) Parser
     \<Rightarrow> bool" where
  "validOrders ops [] p = True"
| "validOrders ops ((ks, sks, msg) # rest) p =
     (enumerates ks (patterns p) \<and> enumerates sks (sensitivePatterns p) \<and>
      (case inc ops ks sks msg p of Inl e \<Rightarrow> False | Inr p' \<Rightarrow> validOrders ops rest p'))"

text \<open>A third invariant: a stat under a key with the empty hash has the empty sample.\<close>

definition noSampleAtEmptyHash :: "(patternKey \<rightharpoonup> ('p, 'w::len) patternStat) \<Rightarrow> bool" where
  "noSampleAtEmptyHash m = (\<forall>k st. m k = Some st \<longrightarrow> hash k = [] \<longrightarrow> sample st = [])"

section \<open>Concrete runs\<close>

text \<open>
  A parser with a callback, detection enabled and a catalog of one entry, and three
  messages: an Info line holding a secret, and two Error lines that differ in one word
  holding a digit (weak-equal under \<open>wordPatterns\<close>, with different hashes).
  \<open>parser1\<close> is the state after the Info line, \<open>parser2\<close> the state after the first
  Error line as well.
  The concrete parsers are those of a 64-bit build.
\<close>

definition catalog1 :: "PrecompiledPattern list" where
  "catalog1 = [\<lparr>Name = ''Code'', Pattern = literalDigits ''secret_code_''\<rparr>]"

definition parser0 :: "(string list, 64) Parser" where
  "parser0 = fst (NewParser (Inl UnmarshalError) (\<lambda>src. None) True False catalog1)"

definition msgInfo :: Message where
  "msgInfo = \<lparr>Timestamp = 1, Content = ''login secret_code_789'', Level = LevelInfo\<rparr>"

definition msgErr1 :: Message where
  "msgErr1 = \<lparr>Timestamp = 2, Content = ''disk sda1 failed'', Level = LevelError\<rparr>"

definition msgErr2 :: Message where
  "msgErr2 = \<lparr>Timestamp = 3, Content = ''disk sdb2 failed'', Level = LevelError\<rparr>"

definition keyInfo :: patternKey where
  "keyInfo = \<lparr>level = LevelInfo, hash = []\<rparr>"

definition keyErr1 :: patternKey where
  "keyErr1 = \<lparr>level = LevelError, hash = ''#disk/sda1/failed/''\<rparr>"

definition keySecret :: sensitivePatternKey where
  "keySecret = \<lparr>pattern_k = ''secret_code_789'', hash_k = ''#login/secret_code_789/''\<rparr>"

definition run1 :: "(patternKey list \<times> sensitivePatternKey list \<times> Message) list" where
  "run1 = [([], [], msgInfo)]"

definition run2 :: "(patternKey list \<times> sensitivePatternKey list \<times> Message) list" where
  "run2 = [([], [], msgInfo), ([keyInfo], [keySecret], msgErr1)]"

definition parser1 :: "(string list, 64) Parser" where
  "parser1 = projr (incAll wordPatterns run1 parser0)"

definition parser2 :: "(string list, 64) Parser" where
  "parser2 = projr (incAll wordPatterns run2 parser0)"

text \<open>The same parser with detection disabled, and its state after the Info line.\<close>

definition parserOff0 :: "(string list, 64) Parser" where
  "parserOff0 = fst (NewParser (Inl UnmarshalError) (\<lambda>src. None) True True catalog1)"

definition parserOff1 :: "(string list, 64) Parser" where
  "parserOff1 = projr (incAll wordPatterns run1 parserOff0)"

text \<open>
  \<open>run3\<close> goes on with the second Error line, which has no key of its own in
  \<open>parser2\<close>; \<open>parser3\<close> is the state after it.
\<close>

definition run3 :: "(patternKey list \<times> sensitivePatternKey list \<times> Message) list" where
  "run3 = [([], [], msgInfo), ([keyInfo], [keySecret], msgErr1),
           ([keyInfo, keyErr1], [keySecret], msgErr2)]"

definition parser3 :: "(string list, 64) Parser" where
  "parser3 = projr (incAll wordPatterns run3 parser0)"

text \<open>
  The input of TestParserCardinalityLimit (parser_test.go:25-57): a parser with empty
  maps, no callback and no catalog, and four Error messages, each scanned in the order
  in which the keys were stored.
\<close>

definition testParser :: "(string list, 64) Parser" where
  "testParser = \<lparr>patterns = Map.empty, onMsgCb = False, onMsgCb_calls = [],
     sensitivePatternsDefinations = [], sensitivePatterns = Map.empty,
     disableSensitivePatternDetection = False\<rparr>"

definition testMessage :: "string \<Rightarrow> Message" where
  "testMessage content = \<lparr>Timestamp = 0, Content = content, Level = LevelError\<rparr>"

definition testKeys :: "patternKey list" where
  "testKeys = [\<lparr>level = LevelError, hash = ''#error/alpha/beta/gamma/''\<rparr>,
               \<lparr>level = LevelError, hash = ''#error/delta/epsilon/zeta/''\<rparr>,
               \<lparr>level = LevelError, hash = ''#error/eta/theta/iota/''\<rparr>,
               \<lparr>level = LevelError, hash = ''#error/kappa/lambda/mu/''\<rparr>]"

definition testRun :: "(patternKey list \<times> sensitivePatternKey list \<times> Message) list" where
  "testRun = [(take 0 testKeys, [], testMessage ''error alpha beta gamma''),
              (take 1 testKeys, [], testMessage ''error delta epsilon zeta''),
              (take 2 testKeys, [], testMessage ''error eta theta iota''),
              (take 3 testKeys, [], testMessage ''error kappa lambda mu'')]"

text \<open>The count of the stat under a key, zero when the map holds none.\<close>

definition messagesAt :: "(patternKey \<rightharpoonup> ('p, 'w::len) patternStat) \<Rightarrow> patternKey \<Rightarrow> 'w word" where
  "messagesAt m k = (case m k of None \<Rightarrow> 0 | Some st \<Rightarrow> messages st)"

text \<open>The largest \<open>int\<close>: the largest signed value of a word of the build's width.\<close>

definition maxInt :: "'w::len word" where
  "maxInt = word_of_int (2 ^ (LENGTH('w) - 1) - 1)"

text \<open>
  A parser with no callback and detection disabled, on a 64-bit build, and the state in
  which it has counted \<open>n\<close> Info lines.
\<close>

definition quiet0 :: "(string list, 64) Parser" where
  "quiet0 = fst (NewParser (Inl UnmarshalError) (\<lambda>src. None) False True [])"

definition infoCounted :: "nat \<Rightarrow> (string list, 64) Parser" where
  "infoCounted n = quiet0\<lparr>patterns := [keyInfo \<mapsto> \<lparr>pattern = None, sample = [], messages = of_nat n\<rparr>]\<rparr>"

section \<open>The detector returns the first match only\<close>

lemma DetectSensitiveData_length: "length (DetectSensitiveData line h cat) \<le> 1"
  by (induction cat) simp_all

lemma DetectSensitiveData_first:
  "DetectSensitiveData line h cat = [m] \<Longrightarrow>
     \<exists>before e rest. cat = before @ e # rest
       \<and> list_all (\<lambda>x. \<not> MatchString (Pattern x) line) before
       \<and> MatchString (Pattern e) line
       \<and> m = \<lparr>sensitivePatternKey_m = \<lparr>pattern_k = FindString (Pattern e) line, hash_k = h\<rparr>,
              regex_m = String (Pattern e), name_m = Name e, hash_m = h\<rparr>"
proof (induction cat)
  case Nil
  then show ?case by simp
next
  case (Cons x cat)
  show ?case
  proof (cases "MatchString (Pattern x) line")
    case True
    with Cons.prems have "m = \<lparr>sensitivePatternKey_m =
        \<lparr>pattern_k = FindString (Pattern x) line, hash_k = h\<rparr>,
        regex_m = String (Pattern x), name_m = Name x, hash_m = h\<rparr>"
      by simp
    with True have "x # cat = [] @ x # cat
        \<and> list_all (\<lambda>x. \<not> MatchString (Pattern x) line) []
        \<and> MatchString (Pattern x) line
        \<and> m = \<lparr>sensitivePatternKey_m = \<lparr>pattern_k = FindString (Pattern x) line, hash_k = h\<rparr>,
              regex_m = String (Pattern x), name_m = Name x, hash_m = h\<rparr>"
      by simp
    then show ?thesis by blast
  next
    case False
    with Cons.prems have "DetectSensitiveData line h cat = [m]" by simp
    from Cons.IH [OF this] obtain before e rest where
      H: "cat = before @ e # rest"
         "list_all (\<lambda>x. \<not> MatchString (Pattern x) line) before"
         "MatchString (Pattern e) line"
         "m = \<lparr>sensitivePatternKey_m = \<lparr>pattern_k = FindString (Pattern e) line, hash_k = h\<rparr>,
              regex_m = String (Pattern e), name_m = Name e, hash_m = h\<rparr>"
      by blast
    from H False have "x # cat = (x # before) @ e # rest
        \<and> list_all (\<lambda>x. \<not> MatchString (Pattern x) line) (x # before)
        \<and> MatchString (Pattern e) line
        \<and> m = \<lparr>sensitivePatternKey_m = \<lparr>pattern_k = FindString (Pattern e) line, hash_k = h\<rparr>,
              regex_m = String (Pattern e), name_m = Name e, hash_m = h\<rparr>"
      by simp
    then show ?thesis by blast
  qed
qed

lemma DetectSensitiveData_none:
  "DetectSensitiveData line h cat = [] \<longleftrightarrow>
     list_all (\<lambda>x. \<not> MatchString (Pattern x) line) cat"
  by (induction cat) simp_all

section \<open>The scans, the sensitive pass and one call of inc\<close>

lemma highSignal_iff:
  "highSignal lv \<longleftrightarrow> \<not> (lv = LevelUnknown \<or> lv = LevelDebug \<or> lv = LevelInfo)"
  by (cases lv) (simp_all add: highSignal_def)

lemma scanPatterns_Some:
  "scanPatterns ops m lv pat ks = Inr (Some k) \<Longrightarrow>
     k \<in> set ks \<and> level k = lv
       \<and> (\<exists>st q. m k = Some st \<and> pattern st = Some q \<and> WeakEqual ops q pat)"
  by (induction ks) (auto split: option.splits if_splits)

lemma scanPatterns_None:
  "scanPatterns ops m lv pat ks = Inr None \<Longrightarrow> k \<in> set ks \<Longrightarrow> m k = Some st
     \<Longrightarrow> level k = lv \<Longrightarrow> \<exists>q. pattern st = Some q \<and> \<not> WeakEqual ops q pat"
  by (induction ks) (auto split: option.splits if_splits)

lemma scanPatterns_no_panic:
  "patternsNonNil m \<Longrightarrow> highSignal lv \<Longrightarrow> scanPatterns ops m lv pat ks \<noteq> Inl e"
  by (induction ks) (auto simp: patternsNonNil_def split: option.splits)

lemma scanPatterns_none_weak:
  "(\<And>k st q. m k = Some st \<Longrightarrow> level k = lv \<Longrightarrow> pattern st = Some q \<Longrightarrow> \<not> WeakEqual ops q pat)
     \<Longrightarrow> patternsNonNil m \<Longrightarrow> highSignal lv \<Longrightarrow> scanPatterns ops m lv pat ks = Inr None"
  by (induction ks) (auto simp: patternsNonNil_def split: option.splits)

lemma scanSensitive_Some:
  "scanSensitive ops m sub pat ks = Inr (Some k) \<Longrightarrow>
     k \<in> set ks \<and> pattern_k k = sub
       \<and> (\<exists>st q. m k = Some st \<and> pattern_s st = Some q \<and> WeakEqual ops q pat)"
  by (induction ks) (auto split: option.splits if_splits)

lemma scanSensitive_no_panic:
  "sensitiveNonNil m \<Longrightarrow> scanSensitive ops m sub pat ks \<noteq> Inl e"
proof (induction ks)
  case Nil
  then show ?case by simp
next
  case (Cons k ks)
  show ?case
  proof (cases "m k")
    case None
    with Cons show ?thesis by simp
  next
    case (Some st)
    with Cons.prems obtain q where "pattern_s st = Some q"
      by (auto simp: sensitiveNonNil_def)
    with Some Cons show ?thesis by simp
  qed
qed

lemma bump_Some: "m k = Some st \<Longrightarrow> bump k m = m(k \<mapsto> st\<lparr>messages := messages st + 1\<rparr>)"
  by (simp add: bump_def)

lemma bump_s_Some:
  "m k = Some st \<Longrightarrow> bump_s k m = m(k \<mapsto> st\<lparr>messages_s := messages_s st + 1\<rparr>)"
  by (simp add: bump_s_def)

lemma sensitiveNonNil_bump_s: "sensitiveNonNil m \<Longrightarrow> sensitiveNonNil (bump_s k m)"
  by (auto simp: sensitiveNonNil_def bump_s_def split: option.splits if_splits)

lemma sensitiveNonNil_upd:
  "sensitiveNonNil m \<Longrightarrow> pattern_s st \<noteq> None \<Longrightarrow> sensitiveNonNil (m(k \<mapsto> st))"
  by (auto simp: sensitiveNonNil_def)

lemma countMatch_frame:
  "countMatch ops sks msg pat match p = Inr q \<Longrightarrow>
     patterns q = patterns p \<and> onMsgCb q = onMsgCb p \<and> onMsgCb_calls q = onMsgCb_calls p
     \<and> sensitivePatternsDefinations q = sensitivePatternsDefinations p
     \<and> disableSensitivePatternDetection q = disableSensitivePatternDetection p"
  by (auto simp: countMatch_def Let_def split: option.splits sum.splits)

lemma countMatch_total:
  assumes "sensitiveNonNil (sensitivePatterns p)"
  shows "\<exists>q. countMatch ops sks msg pat match p = Inr q \<and> sensitiveNonNil (sensitivePatterns q)"
proof (cases "sensitivePatterns p (sensitivePatternKey_m match)")
  case (Some st)
  with assms show ?thesis
    by (simp add: countMatch_def Let_def sensitiveNonNil_bump_s)
next
  case None
  show ?thesis
  proof (cases "scanSensitive ops (sensitivePatterns p) (pattern_k (sensitivePatternKey_m match)) pat sks")
    case (Inl e)
    with scanSensitive_no_panic [OF assms] show ?thesis by blast
  next
    case (Inr r)
    with None assms show ?thesis
      by (cases r) (simp_all add: countMatch_def Let_def sensitiveNonNil_bump_s sensitiveNonNil_upd)
  qed
qed

lemma countMatches_frame:
  "countMatches ops sks msg pat ms p = Inr q \<Longrightarrow>
     patterns q = patterns p \<and> onMsgCb q = onMsgCb p \<and> onMsgCb_calls q = onMsgCb_calls p
     \<and> sensitivePatternsDefinations q = sensitivePatternsDefinations p
     \<and> disableSensitivePatternDetection q = disableSensitivePatternDetection p"
proof (induction ms arbitrary: p)
  case Nil
  then show ?case by simp
next
  case (Cons a ms)
  then obtain p' where a: "countMatch ops sks msg pat a p = Inr p'"
    and r: "countMatches ops sks msg pat ms p' = Inr q"
    by (auto split: sum.splits)
  from countMatch_frame [OF a] Cons.IH [OF r] show ?case by simp
qed

lemma countMatches_total:
  "sensitiveNonNil (sensitivePatterns p) \<Longrightarrow>
     \<exists>q. countMatches ops sks msg pat ms p = Inr q \<and> sensitiveNonNil (sensitivePatterns q)"
proof (induction ms arbitrary: p)
  case Nil
  then show ?case by simp
next
  case (Cons a ms)
  from countMatch_total [OF Cons.prems] obtain p' where
    a: "countMatch ops sks msg pat a p = Inr p'" and n: "sensitiveNonNil (sensitivePatterns p')"
    by blast
  from Cons.IH [OF n] a show ?case by simp
qed

lemma processSensitivePattern_frame:
  "processSensitivePattern ops sks msg p pat = Inr q \<Longrightarrow>
     patterns q = patterns p \<and> onMsgCb q = onMsgCb p \<and> onMsgCb_calls q = onMsgCb_calls p
     \<and> sensitivePatternsDefinations q = sensitivePatternsDefinations p
     \<and> disableSensitivePatternDetection q = disableSensitivePatternDetection p"
  by (auto simp: processSensitivePattern_def dest: countMatches_frame split: if_splits)

lemma processSensitivePattern_total:
  "sensitiveNonNil (sensitivePatterns p) \<Longrightarrow>
     \<exists>q. processSensitivePattern ops sks msg p pat = Inr q \<and> sensitiveNonNil (sensitivePatterns q)"
  by (simp add: processSensitivePattern_def countMatches_total)

lemma callback_frame [simp]:
  "patterns (callback c p) = patterns p"
  "sensitivePatterns (callback c p) = sensitivePatterns p"
  "sensitivePatternsDefinations (callback c p) = sensitivePatternsDefinations p"
  "disableSensitivePatternDetection (callback c p) = disableSensitivePatternDetection p"
  "onMsgCb (callback c p) = onMsgCb p"
  by (simp_all add: callback_def)

lemma findStat_cases:
  assumes "findStat ops ks msg pat key m = Inr (k, m')"
  shows "(\<exists>st. m key = Some st \<and> k = key \<and> m' = m)
       \<or> (m key = None \<and> scanPatterns ops m (Level msg) pat ks = Inr (Some k) \<and> m' = m)
       \<or> (m key = None \<and> scanPatterns ops m (Level msg) pat ks = Inr None \<and> k = key
            \<and> m' = m(key \<mapsto> \<lparr>pattern = Some pat, sample = Content msg, messages = 0\<rparr>))"
  using assms by (auto simp: findStat_def split: option.splits sum.splits)

lemma inc_low:
  assumes "Level msg = LevelUnknown \<or> Level msg = LevelDebug \<or> Level msg = LevelInfo"
  shows "inc ops ks sks msg p =
     processSensitivePattern ops sks msg
       (callback (Timestamp msg, Level msg, [], Content msg)
          (p\<lparr>patterns := (patterns p)(lowKey msg \<mapsto>
              (case patterns p (lowKey msg) of
                 None \<Rightarrow> \<lparr>pattern = None, sample = [], messages = 1\<rparr>
               | Some st \<Rightarrow> st\<lparr>messages := messages st + 1\<rparr>))\<rparr>))
       (NewPattern ops (Content msg))"
  using assms by (auto simp: inc_def Let_def lowKey_def bump_def split: option.splits)

lemma inc_high:
  assumes "\<not> (Level msg = LevelUnknown \<or> Level msg = LevelDebug \<or> Level msg = LevelInfo)"
  shows "inc ops ks sks msg p =
     (case findStat ops ks msg (NewPattern ops (Content msg)) (msgKey ops msg) (patterns p) of
        Inl e \<Rightarrow> Inl e
      | Inr (k, m) \<Rightarrow>
          processSensitivePattern ops sks msg
            ((callback (Timestamp msg, Level msg, hash (msgKey ops msg), Content msg)
               (p\<lparr>patterns := m\<rparr>))\<lparr>patterns := bump k m\<rparr>)
            (NewPattern ops (Content msg)))"
  using assms by (auto simp: inc_def Let_def msgKey_def split: sum.splits prod.splits)

lemma inc_patterns:
  assumes "inc ops ks sks msg p = Inr q"
  shows "(\<not> highSignal (Level msg) \<and>
            patterns q = (patterns p)(lowKey msg \<mapsto>
              (case patterns p (lowKey msg) of
                 None \<Rightarrow> \<lparr>pattern = None, sample = [], messages = 1\<rparr>
               | Some st \<Rightarrow> st\<lparr>messages := messages st + 1\<rparr>)))
       \<or> (highSignal (Level msg) \<and>
            (\<exists>st. patterns p (msgKey ops msg) = Some st \<and>
               patterns q = (patterns p)(msgKey ops msg \<mapsto> st\<lparr>messages := messages st + 1\<rparr>)))
       \<or> (highSignal (Level msg) \<and> patterns p (msgKey ops msg) = None \<and>
            (\<exists>k st pt. k \<in> set ks \<and> patterns p k = Some st \<and> level k = Level msg
               \<and> pattern st = Some pt \<and> WeakEqual ops pt (NewPattern ops (Content msg))
               \<and> scanPatterns ops (patterns p) (Level msg) (NewPattern ops (Content msg)) ks = Inr (Some k)
               \<and> patterns q = (patterns p)(k \<mapsto> st\<lparr>messages := messages st + 1\<rparr>)))
       \<or> (highSignal (Level msg) \<and> patterns p (msgKey ops msg) = None \<and>
            scanPatterns ops (patterns p) (Level msg) (NewPattern ops (Content msg)) ks = Inr None \<and>
            patterns q = (patterns p)(msgKey ops msg \<mapsto>
               \<lparr>pattern = Some (NewPattern ops (Content msg)), sample = Content msg, messages = 1\<rparr>))"
proof (cases "highSignal (Level msg)")
  case False
  then have low: "Level msg = LevelUnknown \<or> Level msg = LevelDebug \<or> Level msg = LevelInfo"
    by (simp add: highSignal_iff)
  from assms processSensitivePattern_frame [of ops sks msg _ _ q] show ?thesis
    unfolding inc_low [OF low] using False by fastforce
next
  case True
  then have high: "\<not> (Level msg = LevelUnknown \<or> Level msg = LevelDebug \<or> Level msg = LevelInfo)"
    by (simp add: highSignal_iff)
  let ?pat = "NewPattern ops (Content msg)"
  from assms obtain k m where
    fs: "findStat ops ks msg ?pat (msgKey ops msg) (patterns p) = Inr (k, m)"
    and ps: "processSensitivePattern ops sks msg
            ((callback (Timestamp msg, Level msg, hash (msgKey ops msg), Content msg)
               (p\<lparr>patterns := m\<rparr>))\<lparr>patterns := bump k m\<rparr>) ?pat = Inr q"
    unfolding inc_high [OF high] by (auto split: sum.splits prod.splits)
  from processSensitivePattern_frame [OF ps] have pq: "patterns q = bump k m" by simp
  from findStat_cases [OF fs] show ?thesis
  proof (elim disjE exE conjE)
    fix st assume "patterns p (msgKey ops msg) = Some st" "k = msgKey ops msg" "m = patterns p"
    with pq True show ?thesis by (simp add: bump_def)
  next
    assume a: "patterns p (msgKey ops msg) = None"
      "scanPatterns ops (patterns p) (Level msg) ?pat ks = Inr (Some k)" "m = patterns p"
    from scanPatterns_Some [OF a(2)] obtain st pt where
      "k \<in> set ks" "level k = Level msg" "patterns p k = Some st" "pattern st = Some pt"
      "WeakEqual ops pt ?pat" by blast
    with pq a True show ?thesis by (auto simp: bump_def)
  next
    assume a: "patterns p (msgKey ops msg) = None"
      "scanPatterns ops (patterns p) (Level msg) ?pat ks = Inr None" "k = msgKey ops msg"
      "m = (patterns p)(msgKey ops msg \<mapsto> \<lparr>pattern = Some ?pat, sample = Content msg, messages = 0\<rparr>)"
    with pq True show ?thesis by (simp add: bump_def)
  qed
qed

lemma countMatch_commute:
  "countMatch ops sks msg pat match (callback c (p\<lparr>patterns := m\<rparr>))
     = map_sum id (\<lambda>q. callback c (q\<lparr>patterns := m\<rparr>)) (countMatch ops sks msg pat match p)"
  by (simp add: countMatch_def Let_def callback_def split: option.splits sum.splits)

lemma countMatches_commute:
  "countMatches ops sks msg pat ms (callback c (p\<lparr>patterns := m\<rparr>))
     = map_sum id (\<lambda>q. callback c (q\<lparr>patterns := m\<rparr>)) (countMatches ops sks msg pat ms p)"
proof (induction ms arbitrary: p)
  case Nil
  then show ?case by simp
next
  case (Cons a ms)
  show ?case
  proof (cases "countMatch ops sks msg pat a p")
    case (Inl e)
    then show ?thesis by (simp add: countMatch_commute)
  next
    case (Inr p')
    then show ?thesis by (simp add: countMatch_commute Cons.IH)
  qed
qed

lemma processSensitivePattern_commute:
  "processSensitivePattern ops sks msg (callback c (p\<lparr>patterns := m\<rparr>)) pat
     = map_sum id (\<lambda>q. callback c (q\<lparr>patterns := m\<rparr>)) (processSensitivePattern ops sks msg p pat)"
  by (simp add: processSensitivePattern_def countMatches_commute)

lemma patternsNonNil_upd:
  "patternsNonNil m \<Longrightarrow> (pattern st = None \<Longrightarrow> \<not> highSignal (level k) \<and> hash k = [])
     \<Longrightarrow> patternsNonNil (m(k \<mapsto> st))"
  by (auto simp: patternsNonNil_def)

lemma inc_patternsNonNil:
  assumes "inc ops ks sks msg p = Inr q" and "patternsNonNil (patterns p)"
  shows "patternsNonNil (patterns q)"
  using inc_patterns [OF assms(1)] assms(2)
  by (elim disjE conjE exE)
     (auto intro!: patternsNonNil_upd simp: lowKey_def patternsNonNil_def split: option.splits)

lemma inc_sensitiveNonNil:
  assumes "inc ops ks sks msg p = Inr q" and "sensitiveNonNil (sensitivePatterns p)"
  shows "sensitiveNonNil (sensitivePatterns q)"
proof (cases "Level msg = LevelUnknown \<or> Level msg = LevelDebug \<or> Level msg = LevelInfo")
  case True
  let ?p' = "callback (Timestamp msg, Level msg, [], Content msg)
          (p\<lparr>patterns := (patterns p)(lowKey msg \<mapsto>
              (case patterns p (lowKey msg) of
                 None \<Rightarrow> \<lparr>pattern = None, sample = [], messages = 1\<rparr>
               | Some st \<Rightarrow> st\<lparr>messages := messages st + 1\<rparr>))\<rparr>)"
  have "sensitiveNonNil (sensitivePatterns ?p')" using assms(2) by simp
  from processSensitivePattern_total [OF this, of ops sks msg "NewPattern ops (Content msg)"]
    assms(1)
  show ?thesis unfolding inc_low [OF True] by simp
next
  case False
  from assms(1) obtain k m where
    ps: "processSensitivePattern ops sks msg
            ((callback (Timestamp msg, Level msg, hash (msgKey ops msg), Content msg)
               (p\<lparr>patterns := m\<rparr>))\<lparr>patterns := bump k m\<rparr>) (NewPattern ops (Content msg)) = Inr q"
    unfolding inc_high [OF False] by (auto split: sum.splits prod.splits)
  have "sensitiveNonNil (sensitivePatterns ((callback (Timestamp msg, Level msg, hash (msgKey ops msg), Content msg)
               (p\<lparr>patterns := m\<rparr>))\<lparr>patterns := bump k m\<rparr>))"
    using assms(2) by simp
  from processSensitivePattern_total [OF this, of ops sks msg "NewPattern ops (Content msg)"] ps
  show ?thesis by simp
qed

lemma inc_total:
  assumes "patternsNonNil (patterns p)" and "sensitiveNonNil (sensitivePatterns p)"
  shows "\<exists>q. inc ops ks sks msg p = Inr q"
proof (cases "Level msg = LevelUnknown \<or> Level msg = LevelDebug \<or> Level msg = LevelInfo")
  case True
  let ?p' = "callback (Timestamp msg, Level msg, [], Content msg)
          (p\<lparr>patterns := (patterns p)(lowKey msg \<mapsto>
              (case patterns p (lowKey msg) of
                 None \<Rightarrow> \<lparr>pattern = None, sample = [], messages = 1\<rparr>
               | Some st \<Rightarrow> st\<lparr>messages := messages st + 1\<rparr>))\<rparr>)"
  have "sensitiveNonNil (sensitivePatterns ?p')" using assms(2) by simp
  from processSensitivePattern_total [OF this, of ops sks msg "NewPattern ops (Content msg)"]
  show ?thesis unfolding inc_low [OF True] by blast
next
  case False
  then have hs: "highSignal (Level msg)" by (simp add: highSignal_iff)
  let ?pat = "NewPattern ops (Content msg)"
  have "\<exists>k m. findStat ops ks msg ?pat (msgKey ops msg) (patterns p) = Inr (k, m)"
  proof (cases "scanPatterns ops (patterns p) (Level msg) ?pat ks")
    case (Inl e)
    with scanPatterns_no_panic [OF assms(1) hs] show ?thesis by blast
  next
    case (Inr r)
    then show ?thesis by (cases r) (auto simp: findStat_def split: option.splits)
  qed
  then obtain k m where fs: "findStat ops ks msg ?pat (msgKey ops msg) (patterns p) = Inr (k, m)"
    by blast
  have "sensitiveNonNil (sensitivePatterns ((callback (Timestamp msg, Level msg, hash (msgKey ops msg), Content msg)
               (p\<lparr>patterns := m\<rparr>))\<lparr>patterns := bump k m\<rparr>))"
    using assms(2) by simp
  from processSensitivePattern_total [OF this, of ops sks msg ?pat] obtain q where
    "processSensitivePattern ops sks msg
       ((callback (Timestamp msg, Level msg, hash (msgKey ops msg), Content msg)
          (p\<lparr>patterns := m\<rparr>))\<lparr>patterns := bump k m\<rparr>) ?pat = Inr q"
    by blast
  with fs have "inc ops ks sks msg p = Inr q" unfolding inc_high [OF False] by simp
  then show ?thesis by blast
qed

lemma NewParser_invariants:
  "patternsNonNil (patterns (fst (NewParser u c cb d pc)))"
  "sensitiveNonNil (sensitivePatterns (fst (NewParser u c cb d pc)))"
  by (simp_all add: NewParser_def Let_def patternsNonNil_def sensitiveNonNil_def split: sum.splits)

lemma runs_invariants:
  assumes "runs ops p q" and "patternsNonNil (patterns p)" and "sensitiveNonNil (sensitivePatterns p)"
  shows "patternsNonNil (patterns q) \<and> sensitiveNonNil (sensitivePatterns q)"
  using assms
proof (induction rule: runs.induct)
  case runs_refl
  then show ?case by simp
next
  case (runs_step q ks sks msg q')
  then show ?case using inc_patternsNonNil inc_sensitiveNonNil by blast
qed

section \<open>Claims about the detector\<close>

text \<open>
  Claim C2 (single-match contract). For every line, pattern hash and catalog,
  \<open>DetectSensitiveData\<close> returns a list of length 0 or 1. When it returns one match,
  the match comes from the first entry of the catalog, in declaration order, whose
  expression matches the line: its \<open>pattern\<close> is the first match of that expression in
  the line (\<open>FindString\<close>), its \<open>regex\<close> and \<open>name\<close> are that entry's. It returns no
  match exactly when no entry's expression matches.
\<close>

theorem DetectSensitiveData_single_match:
  "length (DetectSensitiveData line h cat) \<le> 1
   \<and> (\<forall>m. DetectSensitiveData line h cat = [m] \<longrightarrow>
        (\<exists>before e rest. cat = before @ e # rest
           \<and> list_all (\<lambda>x. \<not> MatchString (Pattern x) line) before
           \<and> MatchString (Pattern e) line
           \<and> m = \<lparr>sensitivePatternKey_m =
                     \<lparr>pattern_k = FindString (Pattern e) line, hash_k = h\<rparr>,
                   regex_m = String (Pattern e), name_m = Name e, hash_m = h\<rparr>))
   \<and> (DetectSensitiveData line h cat = [] \<longleftrightarrow>
        list_all (\<lambda>x. \<not> MatchString (Pattern x) line) cat)"
  using DetectSensitiveData_length DetectSensitiveData_first DetectSensitiveData_none
  by blast

text \<open>
  The contract at a catalog of three entries: the first does not match the line, the
  second and the third do, and the one match returned is the second's.
\<close>

theorem DetectSensitiveData_single_match_witness:
  "DetectSensitiveData ''token=abc secret_code_789 and general_secret'' ''h5''
       [\<lparr>Name = ''AwsKey'', Pattern = literal ''AKIA''\<rparr>,
        \<lparr>Name = ''Code'', Pattern = literalDigits ''secret_code_''\<rparr>,
        \<lparr>Name = ''General'', Pattern = literal ''general_secret''\<rparr>]
     = [\<lparr>sensitivePatternKey_m = \<lparr>pattern_k = ''secret_code_789'', hash_k = ''h5''\<rparr>,
         regex_m = ''secret_code_'' @ CHR 0x5C # ''d+'', name_m = ''Code'', hash_m = ''h5''\<rparr>]
   \<and> (\<exists>before e rest.
         [\<lparr>Name = ''AwsKey'', Pattern = literal ''AKIA''\<rparr>,
          \<lparr>Name = ''Code'', Pattern = literalDigits ''secret_code_''\<rparr>,
          \<lparr>Name = ''General'', Pattern = literal ''general_secret''\<rparr>] = before @ e # rest
         \<and> list_all (\<lambda>x. \<not> MatchString (Pattern x) ''token=abc secret_code_789 and general_secret'') before
         \<and> MatchString (Pattern e) ''token=abc secret_code_789 and general_secret''
         \<and> Name e = ''Code'')"
proof -
  let ?line = "''token=abc secret_code_789 and general_secret''"
  let ?cat = "[\<lparr>Name = ''AwsKey'', Pattern = literal ''AKIA''\<rparr>,
        \<lparr>Name = ''Code'', Pattern = literalDigits ''secret_code_''\<rparr>,
        \<lparr>Name = ''General'', Pattern = literal ''general_secret''\<rparr>]"
  let ?m = "\<lparr>sensitivePatternKey_m = \<lparr>pattern_k = ''secret_code_789'', hash_k = ''h5''\<rparr>,
         regex_m = ''secret_code_'' @ CHR 0x5C # ''d+'', name_m = ''Code'', hash_m = ''h5''\<rparr>"
  have e: "DetectSensitiveData ?line ''h5'' ?cat = [?m]"
    by (simp add: MatchString_def FindString_def String_def literal_def literalDigits_def isDigit_def)
  from DetectSensitiveData_single_match [of ?line "''h5''" ?cat] e
  obtain before e rest where
    "?cat = before @ e # rest"
    "list_all (\<lambda>x. \<not> MatchString (Pattern x) ?line) before"
    "MatchString (Pattern e) ?line"
    "?m = \<lparr>sensitivePatternKey_m = \<lparr>pattern_k = FindString (Pattern e) ?line, hash_k = ''h5''\<rparr>,
                   regex_m = String (Pattern e), name_m = Name e, hash_m = ''h5''\<rparr>"
    by blast
  then have "?cat = before @ e # rest
         \<and> list_all (\<lambda>x. \<not> MatchString (Pattern x) ?line) before
         \<and> MatchString (Pattern e) ?line \<and> Name e = ''Code''"
    by simp
  with e show ?thesis by blast
qed

text \<open>
  The older detector (parser.go:509-529) has no break: on a line that two entries match
  it returns both matches.
\<close>

lemma DetectSensitiveData_v0_all_matches:
  "DetectSensitiveData_v0 (\<lambda>src. Some (literal src)) ''key AKIA and general_secret'' ''h''
      [\<lparr>Name_p = ''AwsKey'', Pattern_p = ''AKIA''\<rparr>,
       \<lparr>Name_p = ''General'', Pattern_p = ''general_secret''\<rparr>]
     = [\<lparr>pattern_k = ''AKIA'', hash_k = ''h''\<rparr>,
        \<lparr>pattern_k = ''general_secret'', hash_k = ''h''\<rparr>]"
  by (simp add: MatchString_def FindString_def literal_def)

text \<open>
  Claim C3 (keyword gate). The claim: an entry with a non-empty keyword list, none of
  whose keywords occurs in the line, is skipped without its expression being evaluated
  and yields no match. \<open>PrecompiledPattern\<close> (parser.go:38-41) has the fields \<open>Name\<close> and
  \<open>Pattern\<close> only and \<open>DetectSensitiveData\<close> (parser.go:246-260) evaluates the
  expression of every entry it reaches. The test TestDetectSensitiveDataWithKeywords gives
  the entry below the keywords "credentials" and "token" and expects no match on the line
  below, which holds neither keyword; the code returns the entry's match.
\<close>

theorem DetectSensitiveData_ignores_keywords:
  "\<not> contains ''this line has secret_code_789 but not the right keywords'' ''credentials''
   \<and> \<not> contains ''this line has secret_code_789 but not the right keywords'' ''token''
   \<and> DetectSensitiveData ''this line has secret_code_789 but not the right keywords'' ''hash3''
        [\<lparr>Name = ''KeywordMismatchButRegexWouldMatch'',
          Pattern = literalDigits ''secret_code_''\<rparr>]
      = [\<lparr>sensitivePatternKey_m = \<lparr>pattern_k = ''secret_code_789'', hash_k = ''hash3''\<rparr>,
          regex_m = ''secret_code_'' @ CHR 0x5C # ''d+'',
          name_m = ''KeywordMismatchButRegexWouldMatch'', hash_m = ''hash3''\<rparr>]"
  by (simp add: MatchString_def FindString_def String_def literalDigits_def isDigit_def)

section \<open>Runs, and the concrete runs evaluated\<close>

lemmas demo_defs = catalog1_def parser0_def msgInfo_def msgErr1_def msgErr2_def keyInfo_def keyErr1_def
  keySecret_def run1_def run2_def parser1_def parser2_def NewParser_def LoadPatterns_def
  inc_def findStat_def bump_def bump_s_def callback_def processSensitivePattern_def countMatch_def
  wordPatterns_def wordsWeakEqual_def isDigit_def MatchString_def FindString_def String_def
  literalDigits_def literal_def enumerates_def Let_def

lemma runs_incAll_from:
  "runs ops p0 p \<Longrightarrow> validOrders ops steps p \<Longrightarrow> incAll ops steps p = Inr q
     \<Longrightarrow> runs ops p0 q"
proof (induction steps arbitrary: p)
  case Nil
  then show ?case by simp
next
  case (Cons s steps)
  obtain ks sks msg where s: "s = (ks, sks, msg)" by (cases s) auto
  from Cons.prems(2) s obtain p' where
    i: "inc ops ks sks msg p = Inr p'" and v: "validOrders ops steps p'"
    and e: "enumerates ks (patterns p)" "enumerates sks (sensitivePatterns p)"
    by (auto split: sum.splits)
  from Cons.prems(3) s i have r: "incAll ops steps p' = Inr q" by simp
  from runs_step [OF Cons.prems(1) e i] have "runs ops p0 p'" .
  from Cons.IH [OF this v r] show ?case .
qed

lemma runs_incAll:
  "validOrders ops steps p \<Longrightarrow> incAll ops steps p = Inr q \<Longrightarrow> runs ops p q"
  using runs_incAll_from [OF runs_refl] .

lemma run1_valid: "validOrders wordPatterns run1 parser0"
  by (simp add: demo_defs)
lemma run2_valid: "validOrders wordPatterns run2 parser0"
  by (simp add: demo_defs)
lemma run2_result: "incAll wordPatterns run2 parser0 = Inr parser2"
  by (simp add: demo_defs)
lemma parser2_info: "patterns parser2 keyInfo = Some \<lparr>pattern = None, sample = [], messages = 1\<rparr>"
  by (simp add: demo_defs)
lemma parser2_error: "patterns parser2 keyErr1 = Some \<lparr>pattern = Some [''disk'', ''sda1'', ''failed''], sample = ''disk sda1 failed'', messages = 1\<rparr>"
  by (simp add: demo_defs)
lemma parser2_secret: "sensitivePatterns parser2 keySecret = Some \<lparr>pattern_s = Some [''login'', ''secret_code_789''], sample_s = ''login secret_code_789'',
   messages_s = 1, sensitiveKey = ''secret_code_789'', regex_s = ''secret_code_'' @ CHR 0x5C # ''d+'', name_s = ''Code'', hash_s = ''#login/secret_code_789/''\<rparr>"
  by (simp add: demo_defs)
lemma parser2_calls: "onMsgCb_calls parser2 = [(1, LevelInfo, [], ''login secret_code_789''), (2, LevelError, ''#disk/sda1/failed/'', ''disk sda1 failed'')]"
  by (simp add: demo_defs)

section \<open>Invariants of the reachable states\<close>

lemma inc_frame:
  assumes "inc ops ks sks msg p = Inr q"
  shows "disableSensitivePatternDetection q = disableSensitivePatternDetection p
       \<and> sensitivePatternsDefinations q = sensitivePatternsDefinations p
       \<and> onMsgCb q = onMsgCb p"
proof (cases "Level msg = LevelUnknown \<or> Level msg = LevelDebug \<or> Level msg = LevelInfo")
  case True
  from assms show ?thesis
    unfolding inc_low [OF True] by (auto dest!: processSensitivePattern_frame)
next
  case False
  from assms show ?thesis
    unfolding inc_high [OF False]
    by (auto dest!: processSensitivePattern_frame split: sum.splits prod.splits)
qed

lemma inc_disabled:
  assumes "inc ops ks sks msg p = Inr q" and "disableSensitivePatternDetection p"
  shows "sensitivePatterns q = sensitivePatterns p"
proof (cases "Level msg = LevelUnknown \<or> Level msg = LevelDebug \<or> Level msg = LevelInfo")
  case True
  from assms show ?thesis
    unfolding inc_low [OF True] by (auto simp: processSensitivePattern_def)
next
  case False
  from assms show ?thesis
    unfolding inc_high [OF False]
    by (auto simp: processSensitivePattern_def split: sum.splits prod.splits)
qed

lemma runs_disabled:
  assumes "runs ops p q" and "disableSensitivePatternDetection p"
  shows "disableSensitivePatternDetection q \<and> sensitivePatterns q = sensitivePatterns p"
  using assms
proof (induction rule: runs.induct)
  case runs_refl
  then show ?case by simp
next
  case (runs_step q ks sks msg q')
  with inc_frame [OF runs_step.hyps(4)] inc_disabled [OF runs_step.hyps(4)]
  show ?case by simp
qed

lemma inc_noSampleAtEmptyHash:
  assumes "inc ops ks sks msg p = Inr q" and "noSampleAtEmptyHash (patterns p)"
    and "\<forall>c. Hash ops (NewPattern ops c) \<noteq> []"
  shows "noSampleAtEmptyHash (patterns q)"
  using inc_patterns [OF assms(1)] assms(2,3)
  by (elim disjE conjE exE)
     (auto simp: noSampleAtEmptyHash_def msgKey_def split: option.splits if_splits)

lemma runs_noSampleAtEmptyHash:
  assumes "runs ops p q" and "noSampleAtEmptyHash (patterns p)"
    and "\<forall>c. Hash ops (NewPattern ops c) \<noteq> []"
  shows "noSampleAtEmptyHash (patterns q)"
  using assms
proof (induction rule: runs.induct)
  case runs_refl
  then show ?case by simp
next
  case (runs_step q ks sks msg q')
  then show ?case using inc_noSampleAtEmptyHash by blast
qed

lemma NewParser_fields:
  "patterns (fst (NewParser u c cb d pc)) = Map.empty"
  "sensitivePatterns (fst (NewParser u c cb d pc)) = Map.empty"
  "disableSensitivePatternDetection (fst (NewParser u c cb d pc)) = d"
  "onMsgCb (fst (NewParser u c cb d pc)) = cb"
  by (simp_all add: NewParser_def Let_def split: sum.splits)

lemma GetCounters_set:
  "x \<in> set (GetCounters ks p) \<Longrightarrow>
     \<exists>k st. k \<in> set ks \<and> patterns p k = Some st
       \<and> x = \<lparr>Level_c = level k, Hash_c = hash k, Sample_c = sample st, Messages_c = messages st\<rparr>"
  by (auto simp: GetCounters_def List.map_filter_def split: option.splits)

section \<open>Claims about the reachable states\<close>

text \<open>
  Claim C9 (the weak-equal scan is nil-safe). In every state the aggregator reaches from
  the parser \<open>NewParser\<close> returns, every stat stored under a key whose level is Warning,
  Error or Critical has a non-nil pattern; a stat with a nil pattern sits under a reserved
  key \<open>(level, "")\<close> of a low-signal level. So the scan of \<open>inc\<close> over the entries of a
  high-signal message's level never calls \<open>WeakEqual\<close> through a nil pattern, whatever
  the order of the scan, and \<open>inc\<close> as a whole never panics.
\<close>

theorem weak_equal_scan_nil_safe:
  assumes "runs ops (fst (NewParser u c cb d pc)) p"
  shows "(\<forall>k st. patterns p k = Some st \<longrightarrow> highSignal (level k) \<longrightarrow> pattern st \<noteq> None)
       \<and> (\<forall>k st. patterns p k = Some st \<longrightarrow> pattern st = None
             \<longrightarrow> \<not> highSignal (level k) \<and> hash k = [])
       \<and> (\<forall>msg ks. highSignal (Level msg) \<longrightarrow>
             scanPatterns ops (patterns p) (Level msg) (NewPattern ops (Content msg)) ks
               \<noteq> Inl NilPointerDereference)
       \<and> (\<forall>ks sks msg. \<exists>q. inc ops ks sks msg p = Inr q)"
proof -
  from runs_invariants [OF assms NewParser_invariants]
  have i: "patternsNonNil (patterns p)" "sensitiveNonNil (sensitivePatterns p)" by simp_all
  from i(1) have a: "\<forall>k st. patterns p k = Some st \<longrightarrow> pattern st = None
             \<longrightarrow> \<not> highSignal (level k) \<and> hash k = []"
    by (simp add: patternsNonNil_def)
  then have b: "\<forall>k st. patterns p k = Some st \<longrightarrow> highSignal (level k) \<longrightarrow> pattern st \<noteq> None"
    by blast
  from scanPatterns_no_panic [OF i(1)]
  have c: "\<forall>msg ks. highSignal (Level msg) \<longrightarrow>
             scanPatterns ops (patterns p) (Level msg) (NewPattern ops (Content msg)) ks
               \<noteq> Inl NilPointerDereference"
    by blast
  from inc_total [OF i] have d: "\<forall>ks sks msg. \<exists>q. inc ops ks sks msg p = Inr q" by blast
  from a b c d show ?thesis by blast
qed

text \<open>
  The state after an Info line and an Error line holds one stat of each kind; a second
  Error line is scanned and counted without a panic.
\<close>

theorem weak_equal_scan_nil_safe_witness:
  "runs wordPatterns parser0 parser2
   \<and> patterns parser2 keyErr1 = Some \<lparr>pattern = Some [''disk'', ''sda1'', ''failed''],
        sample = ''disk sda1 failed'', messages = 1\<rparr>
   \<and> highSignal (level keyErr1)
   \<and> pattern \<lparr>pattern = Some [''disk'', ''sda1'', ''failed''],
        sample = ''disk sda1 failed'', messages = (1::64 word)\<rparr> \<noteq> None
   \<and> patterns parser2 keyInfo = Some \<lparr>pattern = None, sample = [], messages = 1\<rparr>
   \<and> \<not> highSignal (level keyInfo) \<and> hash keyInfo = []
   \<and> highSignal (Level msgErr2)
   \<and> scanPatterns wordPatterns (patterns parser2) (Level msgErr2)
        (NewPattern wordPatterns (Content msgErr2)) [keyInfo, keyErr1] \<noteq> Inl NilPointerDereference
   \<and> (\<exists>q. inc wordPatterns [keyInfo, keyErr1] [keySecret] msgErr2 parser2 = Inr q)"
proof -
  have r: "runs wordPatterns (fst (NewParser (Inl UnmarshalError) (\<lambda>src. None) True False catalog1)) parser2"
    using runs_incAll [OF run2_valid run2_result] by (simp add: parser0_def)
  have h: "highSignal (level keyErr1)" "\<not> highSignal (level keyInfo)" "hash keyInfo = []"
    "highSignal (Level msgErr2)"
    by (simp_all add: highSignal_def keyErr1_def keyInfo_def msgErr2_def)
  from weak_equal_scan_nil_safe [OF r]
  have A: "\<forall>msg ks. highSignal (Level msg) \<longrightarrow>
             scanPatterns wordPatterns (patterns parser2) (Level msg)
               (NewPattern wordPatterns (Content msg)) ks \<noteq> Inl NilPointerDereference"
    and B: "\<forall>ks sks msg. \<exists>q. inc wordPatterns ks sks msg parser2 = Inr q"
    and C: "\<forall>k st. patterns parser2 k = Some st \<longrightarrow> highSignal (level k)
             \<longrightarrow> pattern st \<noteq> None"
    by blast+
  from A h(4) have a: "scanPatterns wordPatterns (patterns parser2) (Level msgErr2)
        (NewPattern wordPatterns (Content msgErr2)) [keyInfo, keyErr1] \<noteq> Inl NilPointerDereference"
    by blast
  from B have b: "\<exists>q. inc wordPatterns [keyInfo, keyErr1] [keySecret] msgErr2 parser2 = Inr q"
    by blast
  from C parser2_error h(1)
  have c: "pattern \<lparr>pattern = Some [''disk'', ''sda1'', ''failed''],
        sample = ''disk sda1 failed'', messages = (1::64 word)\<rparr> \<noteq> None"
    by blast
  from r have r': "runs wordPatterns parser0 parser2" by (simp add: parser0_def)
  from r' parser2_error h(1) c parser2_info h(2,3,4) a b show ?thesis by blast
qed

text \<open>
  Claim C8 (low-signal counters have no sample). In every reachable state, every
  \<open>LogCounter\<close> that \<open>GetCounters\<close> returns with the empty \<open>Hash\<close> has the empty
  \<open>Sample\<close>: the reserved stat is created by \<open>&patternStat{}\<close> and no call assigns its
  sample. The key of a high-signal message carries \<open>pattern.Hash()\<close>; pattern.go is not
  among the sources, and the statement takes from it that \<open>Hash\<close> never returns the empty
  string, the value the keys of the low-signal levels reserve.
\<close>

theorem low_signal_counters_have_no_sample:
  assumes "\<forall>c. Hash ops (NewPattern ops c) \<noteq> []"
    and "runs ops (fst (NewParser u c cb d pc)) p"
  shows "\<forall>x \<in> set (GetCounters ks p). Hash_c x = [] \<longrightarrow> Sample_c x = []"
proof -
  have "noSampleAtEmptyHash (patterns (fst (NewParser u c cb d pc)))"
    by (simp add: NewParser_fields noSampleAtEmptyHash_def)
  from runs_noSampleAtEmptyHash [OF assms(2) this assms(1)]
  have "noSampleAtEmptyHash (patterns p)" .
  then show ?thesis
    by (auto simp: noSampleAtEmptyHash_def dest!: GetCounters_set)
qed

text \<open>
  \<open>wordPatterns\<close> never hashes to the empty string; after an Info line and an Error line
  the counter with the empty hash is the Info one, and its sample is empty.
\<close>

theorem low_signal_counters_have_no_sample_witness:
  "(\<forall>c. Hash wordPatterns (NewPattern wordPatterns c) \<noteq> [])
   \<and> runs wordPatterns parser0 parser2
   \<and> GetCounters [keyErr1, keyInfo] parser2 =
       [\<lparr>Level_c = LevelError, Hash_c = ''#disk/sda1/failed/'', Sample_c = ''disk sda1 failed'',
          Messages_c = 1\<rparr>,
        \<lparr>Level_c = LevelInfo, Hash_c = [], Sample_c = [], Messages_c = 1\<rparr>]
   \<and> Hash_c \<lparr>Level_c = LevelInfo, Hash_c = [], Sample_c = [], Messages_c = 1\<rparr> = []
   \<and> Sample_c \<lparr>Level_c = LevelInfo, Hash_c = [], Sample_c = [], Messages_c = 1\<rparr> = []"
proof -
  have n: "\<forall>c. Hash wordPatterns (NewPattern wordPatterns c) \<noteq> []"
    by (simp add: wordPatterns_def)
  have r: "runs wordPatterns (fst (NewParser (Inl UnmarshalError) (\<lambda>src. None) True False catalog1)) parser2"
    using runs_incAll [OF run2_valid run2_result] by (simp add: parser0_def)
  have g: "GetCounters [keyErr1, keyInfo] parser2 =
       [\<lparr>Level_c = LevelError, Hash_c = ''#disk/sda1/failed/'', Sample_c = ''disk sda1 failed'',
          Messages_c = 1\<rparr>,
        \<lparr>Level_c = LevelInfo, Hash_c = [], Sample_c = [], Messages_c = 1\<rparr>]"
    by (simp add: GetCounters_def List.map_filter_simps parser2_info parser2_error)
       (simp add: keyErr1_def keyInfo_def)
  from low_signal_counters_have_no_sample [OF n r, of "[keyErr1, keyInfo]"] g n r
  show ?thesis unfolding parser0_def by simp
qed

text \<open>
  Claim C10 (disabled detection yields no sensitive counters). When the parser is
  constructed with \<open>disableSensitiveDataDetection\<close> true, then in every state it reaches
  \<open>processSensitivePattern\<close> returns at once, leaving the parser as it is, for every
  message; the map of sensitive stats stays empty and \<open>GetSensitiveCounters\<close> returns
  the empty list.
\<close>

theorem disabled_detection_no_sensitive_counters:
  assumes "runs ops (fst (NewParser u c cb True pc)) p"
  shows "GetSensitiveCounters sks p = []
       \<and> sensitivePatterns p = Map.empty
       \<and> (\<forall>sks msg pat. processSensitivePattern ops sks msg p pat = Inr p)"
proof -
  from runs_disabled [OF assms] have d: "disableSensitivePatternDetection p"
    and e: "sensitivePatterns p = Map.empty"
    by (simp_all add: NewParser_fields)
  from e have "GetSensitiveCounters sks p = []"
    by (induction sks) (simp_all add: GetSensitiveCounters_def List.map_filter_simps)
  with d e show ?thesis by (simp add: processSensitivePattern_def)
qed

lemma runOff_valid: "validOrders wordPatterns run1 parserOff0"
  by (simp add: demo_defs parserOff0_def)

lemma runOff_result: "incAll wordPatterns run1 parserOff0 = Inr parserOff1"
  by (simp add: demo_defs parserOff0_def parserOff1_def)

text \<open>
  With detection disabled the Info line holding a secret leaves no sensitive stat.
\<close>

theorem disabled_detection_no_sensitive_counters_witness:
  "runs wordPatterns parserOff0 parserOff1
   \<and> GetSensitiveCounters [keySecret] parserOff1 = []
   \<and> sensitivePatterns parserOff1 = Map.empty
   \<and> processSensitivePattern wordPatterns [] msgInfo parserOff1
        (NewPattern wordPatterns (Content msgInfo)) = Inr parserOff1"
proof -
  have r: "runs wordPatterns (fst (NewParser (Inl UnmarshalError) (\<lambda>src. None) True True catalog1)) parserOff1"
    using runs_incAll [OF runOff_valid runOff_result] by (simp add: parserOff0_def)
  from disabled_detection_no_sensitive_counters [OF r, of "[keySecret]"] r
  show ?thesis unfolding parserOff0_def by blast
qed

lemma run3_valid: "validOrders wordPatterns run3 parser0"
  by (simp add: demo_defs run3_def insert_commute)

lemma run3_result: "incAll wordPatterns run3 parser0 = Inr parser3"
  by (simp add: demo_defs run3_def parser3_def)

lemma step3: "inc wordPatterns [keyInfo, keyErr1] [keySecret] msgErr2 parser2 = Inr parser3"
  by (simp add: demo_defs run3_def parser3_def)

lemma parser3_error: "patterns parser3 keyErr1 = Some \<lparr>pattern = Some [''disk'', ''sda1'', ''failed''], sample = ''disk sda1 failed'', messages = 2\<rparr>"
  by (simp add: demo_defs run3_def parser3_def)

lemma parser2_enum: "enumerates [keyInfo, keyErr1] (patterns parser2)" "enumerates [keySecret] (sensitivePatterns parser2)"
  by (simp_all add: demo_defs insert_commute)

lemma parser2_absent: "patterns parser2 (msgKey wordPatterns msgErr2) = None"
  by (simp add: demo_defs msgKey_def)

lemma testRun_eval:
  "validOrders wordPatterns testRun testParser"
  "map_sum id (GetCounters testKeys) (incAll wordPatterns testRun testParser) =
     Inr [\<lparr>Level_c = LevelError, Hash_c = ''#error/alpha/beta/gamma/'', Sample_c = ''error alpha beta gamma'', Messages_c = 1\<rparr>,
     \<lparr>Level_c = LevelError, Hash_c = ''#error/delta/epsilon/zeta/'', Sample_c = ''error delta epsilon zeta'', Messages_c = 1\<rparr>,
     \<lparr>Level_c = LevelError, Hash_c = ''#error/eta/theta/iota/'', Sample_c = ''error eta theta iota'', Messages_c = 1\<rparr>,
     \<lparr>Level_c = LevelError, Hash_c = ''#error/kappa/lambda/mu/'', Sample_c = ''error kappa lambda mu'', Messages_c = 1\<rparr>]"
  "map_sum id (\<lambda>p. patterns p \<lparr>level = LevelError, hash = ''__unclassified__''\<rparr>) (incAll wordPatterns testRun testParser) = Inr None"
  "map_sum id (\<lambda>p. enumerates testKeys (patterns p)) (incAll wordPatterns testRun testParser) = Inr True"
     apply (simp add: demo_defs testRun_def testParser_def testMessage_def testKeys_def insert_commute)
    apply (simp add: demo_defs testRun_def testParser_def testMessage_def testKeys_def GetCounters_def List.map_filter_simps)
   apply (simp add: demo_defs testRun_def testParser_def testMessage_def testKeys_def)
  apply (simp add: demo_defs testRun_def testParser_def testMessage_def testKeys_def insert_commute)
  done

section \<open>The counter as a machine word\<close>

lemma sint_maxInt: "sint (maxInt :: 'w::len word) = 2 ^ (LENGTH('w) - 1) - 1"
proof -
  have "sint (maxInt :: 'w word) = signed_take_bit (LENGTH('w) - 1) (2 ^ (LENGTH('w) - 1) - 1)"
    unfolding maxInt_def by (simp only: sint_sbintrunc')
  moreover have "- (2 ^ (LENGTH('w) - 1)) \<le> (2 ^ (LENGTH('w) - 1) - 1 :: int)"
  proof -
    have "(1 :: int) \<le> 2 ^ (LENGTH('w) - 1)" by (rule one_le_power) simp
    then show ?thesis by linarith
  qed
  ultimately show ?thesis by (simp add: signed_take_bit_int_eq_self)
qed

lemma sint_succ:
  fixes x :: "'w::len word"
  assumes "x \<noteq> maxInt"
  shows "sint (x + 1) = sint x + 1"
proof -
  have "sint x \<noteq> sint (maxInt :: 'w word)" using assms signed_word_eqI by blast
  moreover have "sint x < 2 ^ (LENGTH('w) - 1)" by (rule sint_lt)
  ultimately have u: "sint x + 1 < 2 ^ (LENGTH('w) - 1)" by (simp add: sint_maxInt)
  have l: "- (2 ^ (LENGTH('w) - 1)) \<le> sint x + 1"
    using sint_ge [of x] by simp
  have "x + 1 = word_of_int (sint x + 1)" by simp
  then have "sint (x + 1) = signed_take_bit (LENGTH('w) - 1) (sint x + 1)"
    by (simp only: sint_sbintrunc')
  with l u show ?thesis by (simp add: signed_take_bit_int_eq_self)
qed

lemma infoCounted_first: "inc wordPatterns [] [] msgInfo quiet0 = Inr (infoCounted 1)"
  by (simp add: demo_defs quiet0_def infoCounted_def)

lemma infoCounted_step:
  "inc wordPatterns [keyInfo] [] msgInfo (infoCounted n) = Inr (infoCounted (Suc n))"
  by (simp add: demo_defs quiet0_def infoCounted_def add.commute)

lemma infoCounted_enum:
  "enumerates [keyInfo] (patterns (infoCounted n))"
  "enumerates [] (sensitivePatterns (infoCounted n))"
  by (simp_all add: demo_defs quiet0_def infoCounted_def)

lemma runs_infoCounted: "runs wordPatterns quiet0 (infoCounted (Suc n))"
proof (induction n)
  case 0
  have "enumerates [] (patterns quiet0)" "enumerates [] (sensitivePatterns quiet0)"
    by (simp_all add: demo_defs quiet0_def)
  from runs_step [OF runs_refl this] infoCounted_first show ?case by simp
next
  case (Suc n)
  from runs_step [OF Suc infoCounted_enum infoCounted_step] show ?case .
qed

section \<open>What one call does to a stat\<close>

lemma inc_keeps_stat:
  assumes "inc ops ks sks msg p = Inr q" and "patterns p k = Some st"
  shows "\<exists>st'. patterns q k = Some st' \<and> sample st' = sample st \<and> pattern st' = pattern st
           \<and> (messages st' = messages st \<or> messages st' = messages st + 1)"
  using inc_patterns [OF assms(1)] assms(2)
  by (elim disjE conjE exE) (auto split: option.splits)

lemma inc_selects_one:
  assumes "inc ops ks sks msg p = Inr q"
  shows "\<exists>k. (\<forall>k'. k' \<noteq> k \<longrightarrow> patterns q k' = patterns p k')
           \<and> messagesAt (patterns q) k = messagesAt (patterns p) k + 1"
  using inc_patterns [OF assms]
proof (elim disjE conjE exE)
  assume "patterns q = (patterns p)(lowKey msg \<mapsto>
              (case patterns p (lowKey msg) of
                 None \<Rightarrow> \<lparr>pattern = None, sample = [], messages = 1\<rparr>
               | Some st \<Rightarrow> st\<lparr>messages := messages st + 1\<rparr>))"
  then have "(\<forall>k'. k' \<noteq> lowKey msg \<longrightarrow> patterns q k' = patterns p k')
           \<and> messagesAt (patterns q) (lowKey msg) = messagesAt (patterns p) (lowKey msg) + 1"
    by (simp add: messagesAt_def split: option.splits)
  then show ?thesis by blast
next
  fix st
  assume "patterns p (msgKey ops msg) = Some st"
    "patterns q = (patterns p)(msgKey ops msg \<mapsto> st\<lparr>messages := messages st + 1\<rparr>)"
  then have "(\<forall>k'. k' \<noteq> msgKey ops msg \<longrightarrow> patterns q k' = patterns p k')
           \<and> messagesAt (patterns q) (msgKey ops msg) = messagesAt (patterns p) (msgKey ops msg) + 1"
    by (simp add: messagesAt_def)
  then show ?thesis by blast
next
  fix k st pt
  assume "patterns p k = Some st"
    "patterns q = (patterns p)(k \<mapsto> st\<lparr>messages := messages st + 1\<rparr>)"
  then have "(\<forall>k'. k' \<noteq> k \<longrightarrow> patterns q k' = patterns p k')
           \<and> messagesAt (patterns q) k = messagesAt (patterns p) k + 1"
    by (simp add: messagesAt_def)
  then show ?thesis by blast
next
  assume "patterns p (msgKey ops msg) = None"
    "patterns q = (patterns p)(msgKey ops msg \<mapsto>
               \<lparr>pattern = Some (NewPattern ops (Content msg)), sample = Content msg, messages = 1\<rparr>)"
  then have "(\<forall>k'. k' \<noteq> msgKey ops msg \<longrightarrow> patterns q k' = patterns p k')
           \<and> messagesAt (patterns q) (msgKey ops msg) = messagesAt (patterns p) (msgKey ops msg) + 1"
    by (simp add: messagesAt_def)
  then show ?thesis by blast
qed

lemma runs_keeps_stat:
  assumes "runs ops p q" and "patterns p k = Some st"
  shows "\<exists>st'. patterns q k = Some st' \<and> sample st' = sample st \<and> pattern st' = pattern st"
  using assms
proof (induction rule: runs.induct)
  case runs_refl
  then show ?case by simp
next
  case (runs_step q ks sks msg q')
  then obtain st' where s: "patterns q k = Some st'" "sample st' = sample st"
    "pattern st' = pattern st"
    by blast
  from inc_keeps_stat [OF runs_step.hyps(4) s(1)] s show ?case by auto
qed

section \<open>Claims about one increment\<close>

text \<open>
  Claim C7 (sample immutability and counter monotonicity), as amended. The claim: once set,
  the sample of a stat is never modified, and its count only ever increases, by exactly
  1 per increment that selects it. The count is a Go \<open>int\<close> and \<open>stat.messages++\<close>
  wraps, so the second half holds below the largest \<open>int\<close> only. What holds: take a
  stat \<open>st\<close> stored under \<open>k\<close> in a state \<open>p\<close>, any run of increments from \<open>p\<close> to
  \<open>q\<close>, and one more increment from \<open>q\<close> to \<open>q'\<close>. The stat is still under \<open>k\<close> in
  \<open>q\<close> and in \<open>q'\<close> with the sample it had in \<open>p\<close>. The last increment leaves its
  count as it is or adds 1 in \<open>int\<close> arithmetic; unless the count is the largest
  \<open>int\<close>, its value stays or rises by exactly 1. Every increment selects one key: 1 is
  added to the count under that key (starting from 0 for a new stat) and every other entry
  of the map is untouched.
\<close>

theorem sample_immutable_messages_wrap:
  assumes "runs ops p q" and "patterns p k = Some st" and "inc ops ks sks msg q = Inr q'"
  shows "\<exists>st' st''. patterns q k = Some st' \<and> sample st' = sample st
           \<and> patterns q' k = Some st'' \<and> sample st'' = sample st
           \<and> (messages st'' = messages st' \<or> messages st'' = messages st' + 1)
           \<and> (messages st' \<noteq> maxInt \<longrightarrow>
                sint (messages st'') = sint (messages st')
                \<or> sint (messages st'') = sint (messages st') + 1)
           \<and> (\<exists>k1. (\<forall>k'. k' \<noteq> k1 \<longrightarrow> patterns q' k' = patterns q k')
                 \<and> messagesAt (patterns q') k1 = messagesAt (patterns q) k1 + 1)"
proof -
  from runs_keeps_stat [OF assms(1,2)] obtain st' where
    s: "patterns q k = Some st'" "sample st' = sample st"
    by blast
  from inc_keeps_stat [OF assms(3) s(1)] obtain st'' where
    t: "patterns q' k = Some st''" "sample st'' = sample st'"
       "messages st'' = messages st' \<or> messages st'' = messages st' + 1"
    by blast
  from t(3) have u: "messages st' \<noteq> maxInt \<longrightarrow>
                sint (messages st'') = sint (messages st')
                \<or> sint (messages st'') = sint (messages st') + 1"
    using sint_succ [of "messages st'"] by auto
  from inc_selects_one [OF assms(3)] s t u show ?thesis by auto
qed

text \<open>
  The Info stat of \<open>parser1\<close> keeps its empty sample through the two Error lines. The
  second Error line is counted in the stat of the first: the count goes from 1 to 2 and
  the sample stays the first line's.
\<close>

theorem sample_immutable_messages_wrap_witness:
  "runs wordPatterns parser1 parser2
   \<and> patterns parser1 keyInfo = Some \<lparr>pattern = None, sample = [], messages = 1\<rparr>
   \<and> inc wordPatterns [keyInfo, keyErr1] [keySecret] msgErr2 parser2 = Inr parser3
   \<and> runs wordPatterns parser2 parser2
   \<and> patterns parser2 keyErr1 = Some \<lparr>pattern = Some [''disk'', ''sda1'', ''failed''],
        sample = ''disk sda1 failed'', messages = 1\<rparr>
   \<and> (1 :: 64 word) \<noteq> maxInt
   \<and> patterns parser3 keyErr1 = Some \<lparr>pattern = Some [''disk'', ''sda1'', ''failed''],
        sample = ''disk sda1 failed'', messages = 2\<rparr>
   \<and> (\<exists>st' st''. patterns parser2 keyInfo = Some st' \<and> sample st' = []
         \<and> patterns parser3 keyInfo = Some st'' \<and> sample st'' = []
         \<and> (\<exists>k1. messagesAt (patterns parser3) k1 = messagesAt (patterns parser2) k1 + 1))
   \<and> (\<exists>st''. patterns parser3 keyErr1 = Some st'' \<and> sample st'' = ''disk sda1 failed''
         \<and> (sint (messages st'') = 1 \<or> sint (messages st'') = 2))"
proof -
  have a: "inc wordPatterns [keyInfo] [keySecret] msgErr1 parser1 = Inr parser2"
    by (simp add: demo_defs)
  have e: "enumerates [keyInfo] (patterns parser1)" "enumerates [keySecret] (sensitivePatterns parser1)"
    by (simp_all add: demo_defs)
  have r: "runs wordPatterns parser1 parser2"
    using runs_step [OF runs_refl e a] .
  have i: "patterns parser1 keyInfo = Some \<lparr>pattern = None, sample = [], messages = 1\<rparr>"
    by (simp add: demo_defs)
  have m: "(1 :: 64 word) \<noteq> maxInt" by (simp add: maxInt_def)
  from sample_immutable_messages_wrap [OF r i step3]
  have A: "\<exists>st' st''. patterns parser2 keyInfo = Some st' \<and> sample st' = []
         \<and> patterns parser3 keyInfo = Some st'' \<and> sample st'' = []
         \<and> (\<exists>k1. messagesAt (patterns parser3) k1 = messagesAt (patterns parser2) k1 + 1)"
    by simp blast
  from sample_immutable_messages_wrap [OF runs_refl parser2_error step3]
  obtain st' st'' where x: "patterns parser2 keyErr1 = Some st'"
    "patterns parser3 keyErr1 = Some st''" "sample st'' = ''disk sda1 failed''"
    "messages st' \<noteq> maxInt \<longrightarrow>
       sint (messages st'') = sint (messages st') \<or> sint (messages st'') = sint (messages st') + 1"
    by auto
  from x(1) parser2_error
  have "st' = \<lparr>pattern = Some [''disk'', ''sda1'', ''failed''],
        sample = ''disk sda1 failed'', messages = 1\<rparr>" by simp
  then have "messages st' = 1" by simp
  with x(4) m have "sint (messages st'') = 1 \<or> sint (messages st'') = 2" by simp
  with x(2,3)
  have B: "\<exists>st''. patterns parser3 keyErr1 = Some st'' \<and> sample st'' = ''disk sda1 failed''
         \<and> (sint (messages st'') = 1 \<or> sint (messages st'') = 2)"
    by blast
  from r i step3 runs_refl [of wordPatterns parser2] parser2_error m parser3_error A B
  show ?thesis by blast
qed

text \<open>
  Claim C7 as stated fails at the largest \<open>int\<close>. After 9223372036854775807 Info lines
  the Info stat of a 64-bit build holds that count; the next Info line takes it to
  \<open>-9223372036854775808\<close>.
\<close>

theorem messages_wrap_counterexample:
  "runs wordPatterns quiet0 (infoCounted 9223372036854775807)
   \<and> patterns (infoCounted 9223372036854775807) keyInfo
        = Some \<lparr>pattern = None, sample = [], messages = 9223372036854775807\<rparr>
   \<and> sint (9223372036854775807 :: 64 word) = 9223372036854775807
   \<and> inc wordPatterns [keyInfo] [] msgInfo (infoCounted 9223372036854775807)
        = Inr (infoCounted 9223372036854775808)
   \<and> patterns (infoCounted 9223372036854775808) keyInfo
        = Some \<lparr>pattern = None, sample = [], messages = 9223372036854775808\<rparr>
   \<and> sint (9223372036854775808 :: 64 word) = - 9223372036854775808"
proof -
  have n: "(9223372036854775807 :: nat) = Suc 9223372036854775806"
    "(9223372036854775808 :: nat) = Suc 9223372036854775807" by simp_all
  have r: "runs wordPatterns quiet0 (infoCounted 9223372036854775807)"
    unfolding n(1) by (rule runs_infoCounted)
  have s: "inc wordPatterns [keyInfo] [] msgInfo (infoCounted 9223372036854775807)
        = Inr (infoCounted 9223372036854775808)"
    unfolding n(2) by (rule infoCounted_step)
  have p: "patterns (infoCounted 9223372036854775807) keyInfo
        = Some \<lparr>pattern = None, sample = [], messages = 9223372036854775807\<rparr>"
    "patterns (infoCounted 9223372036854775808) keyInfo
        = Some \<lparr>pattern = None, sample = [], messages = 9223372036854775808\<rparr>"
    by (simp_all add: infoCounted_def)
  have v: "sint (9223372036854775807 :: 64 word) = 9223372036854775807"
    "sint (9223372036854775808 :: 64 word) = - 9223372036854775808"
    by simp_all
  from r s p v show ?thesis by blast
qed

text \<open>
  Claim C4 (weak-equal fallback on increment). In a reachable state, take a high-signal
  message whose key \<open>(level, pattern.Hash())\<close> is absent from the map, and any order of
  the scan that Go can use. If some stat of the message's level has a stored pattern
  weak-equal to the message's pattern, then one such stat has its count incremented, the
  map keeps its keys and the message's own key stays absent. Otherwise a new stat with the
  message's pattern, \<open>sample\<close> the content and \<open>messages\<close> 1 is stored under the
  message's key. In both cases \<open>inc\<close> returns.
\<close>

theorem inc_weak_equal_fallback:
  assumes "runs ops (fst (NewParser u c cb d pc)) p"
    and "highSignal (Level msg)"
    and "patterns p (msgKey ops msg) = None"
    and "enumerates ks (patterns p)"
  shows "\<exists>q. inc ops ks sks msg p = Inr q
     \<and> ((\<exists>k st pt. patterns p k = Some st \<and> level k = Level msg \<and> pattern st = Some pt
            \<and> WeakEqual ops pt (NewPattern ops (Content msg)))
         \<longrightarrow> (\<exists>k st pt. patterns p k = Some st \<and> level k = Level msg \<and> pattern st = Some pt
                \<and> WeakEqual ops pt (NewPattern ops (Content msg))
                \<and> patterns q = (patterns p)(k \<mapsto> st\<lparr>messages := messages st + 1\<rparr>))
             \<and> dom (patterns q) = dom (patterns p)
             \<and> patterns q (msgKey ops msg) = None)
     \<and> (\<not> (\<exists>k st pt. patterns p k = Some st \<and> level k = Level msg \<and> pattern st = Some pt
            \<and> WeakEqual ops pt (NewPattern ops (Content msg)))
         \<longrightarrow> patterns q = (patterns p)(msgKey ops msg \<mapsto>
               \<lparr>pattern = Some (NewPattern ops (Content msg)), sample = Content msg,
                 messages = 1\<rparr>))"
proof -
  let ?pat = "NewPattern ops (Content msg)"
  let ?weak = "\<exists>k st pt. patterns p k = Some st \<and> level k = Level msg \<and> pattern st = Some pt
            \<and> WeakEqual ops pt ?pat"
  from runs_invariants [OF assms(1) NewParser_invariants]
  have i: "patternsNonNil (patterns p)" "sensitiveNonNil (sensitivePatterns p)" by simp_all
  from inc_total [OF i] obtain q where q: "inc ops ks sks msg p = Inr q" by blast
  from inc_patterns [OF q] assms(2,3)
  consider
    (found) k st pt where "k \<in> set ks" "patterns p k = Some st" "level k = Level msg"
      "pattern st = Some pt" "WeakEqual ops pt ?pat"
      "patterns q = (patterns p)(k \<mapsto> st\<lparr>messages := messages st + 1\<rparr>)"
  | (new) "scanPatterns ops (patterns p) (Level msg) ?pat ks = Inr None"
      "patterns q = (patterns p)(msgKey ops msg \<mapsto>
               \<lparr>pattern = Some ?pat, sample = Content msg, messages = 1\<rparr>)"
    by auto
  then have "(?weak \<longrightarrow> (\<exists>k st pt. patterns p k = Some st \<and> level k = Level msg \<and> pattern st = Some pt
                \<and> WeakEqual ops pt ?pat
                \<and> patterns q = (patterns p)(k \<mapsto> st\<lparr>messages := messages st + 1\<rparr>))
             \<and> dom (patterns q) = dom (patterns p)
             \<and> patterns q (msgKey ops msg) = None)
     \<and> (\<not> ?weak \<longrightarrow> patterns q = (patterns p)(msgKey ops msg \<mapsto>
               \<lparr>pattern = Some ?pat, sample = Content msg, messages = 1\<rparr>))"
  proof cases
    case found
    from found(2,6) have "dom (patterns q) = dom (patterns p)" by auto
    moreover from found(2,6) assms(3) have "patterns q (msgKey ops msg) = None" by auto
    ultimately show ?thesis using found by blast
  next
    case new
    have "\<not> ?weak"
    proof
      assume ?weak
      then obtain k st pt where w: "patterns p k = Some st" "level k = Level msg"
        "pattern st = Some pt" "WeakEqual ops pt ?pat" by blast
      from w(1) assms(4) have "k \<in> set ks" by (auto simp: enumerates_def)
      from scanPatterns_None [OF new(1) this w(1,2)] w(3,4) show False by simp
    qed
    with new(2) show ?thesis by blast
  qed
  with q show ?thesis by blast
qed

text \<open>
  Both cases. In \<open>parser2\<close> the second Error line has no key of its own and is weak-equal
  to the stat of the first, whose count becomes 2. In \<open>parser1\<close> the first Error line
  finds no stat of its level and gets a new one.
\<close>

theorem inc_weak_equal_fallback_witness:
  "runs wordPatterns parser0 parser2
   \<and> highSignal (Level msgErr2)
   \<and> patterns parser2 (msgKey wordPatterns msgErr2) = None
   \<and> enumerates [keyInfo, keyErr1] (patterns parser2)
   \<and> patterns parser2 keyErr1 = Some \<lparr>pattern = Some [''disk'', ''sda1'', ''failed''],
        sample = ''disk sda1 failed'', messages = 1\<rparr>
   \<and> level keyErr1 = Level msgErr2
   \<and> WeakEqual wordPatterns [''disk'', ''sda1'', ''failed''] (NewPattern wordPatterns (Content msgErr2))
   \<and> (\<exists>q. inc wordPatterns [keyInfo, keyErr1] [keySecret] msgErr2 parser2 = Inr q
         \<and> dom (patterns q) = dom (patterns parser2)
         \<and> patterns q (msgKey wordPatterns msgErr2) = None
         \<and> patterns q keyErr1 = Some \<lparr>pattern = Some [''disk'', ''sda1'', ''failed''],
              sample = ''disk sda1 failed'', messages = 2\<rparr>)
   \<and> runs wordPatterns parser0 parser1
   \<and> highSignal (Level msgErr1)
   \<and> patterns parser1 (msgKey wordPatterns msgErr1) = None
   \<and> enumerates [keyInfo] (patterns parser1)
   \<and> \<not> (\<exists>k st pt. patterns parser1 k = Some st \<and> level k = Level msgErr1 \<and> pattern st = Some pt
            \<and> WeakEqual wordPatterns pt (NewPattern wordPatterns (Content msgErr1)))
   \<and> (\<exists>q. inc wordPatterns [keyInfo] [keySecret] msgErr1 parser1 = Inr q
         \<and> patterns q = (patterns parser1)(msgKey wordPatterns msgErr1 \<mapsto>
               \<lparr>pattern = Some (NewPattern wordPatterns (Content msgErr1)), sample = Content msgErr1,
                 messages = 1\<rparr>))"
proof -
  have r2: "runs wordPatterns (fst (NewParser (Inl UnmarshalError) (\<lambda>src. None) True False catalog1)) parser2"
    using runs_incAll [OF run2_valid run2_result] by (simp add: parser0_def)
  have r1: "runs wordPatterns (fst (NewParser (Inl UnmarshalError) (\<lambda>src. None) True False catalog1)) parser1"
    using runs_incAll [OF run1_valid, of parser1] by (simp add: demo_defs)
  have h2: "highSignal (Level msgErr2)" "level keyErr1 = Level msgErr2"
    "WeakEqual wordPatterns [''disk'', ''sda1'', ''failed''] (NewPattern wordPatterns (Content msgErr2))"
    by (simp_all add: highSignal_def demo_defs)
  have h1: "highSignal (Level msgErr1)" "patterns parser1 (msgKey wordPatterns msgErr1) = None"
    "enumerates [keyInfo] (patterns parser1)"
    by (simp_all add: highSignal_def demo_defs msgKey_def)
  have n1: "\<not> (\<exists>k st pt. patterns parser1 k = Some st \<and> level k = Level msgErr1 \<and> pattern st = Some pt
            \<and> WeakEqual wordPatterns pt (NewPattern wordPatterns (Content msgErr1)))"
    by (auto simp add: demo_defs split: if_splits)
  have w2: "\<exists>k st pt. patterns parser2 k = Some st \<and> level k = Level msgErr2 \<and> pattern st = Some pt
            \<and> WeakEqual wordPatterns pt (NewPattern wordPatterns (Content msgErr2))"
    by (rule exI [of _ keyErr1]) (simp add: parser2_error h2)
  from inc_weak_equal_fallback [OF r2 h2(1) parser2_absent parser2_enum(1), of "[keySecret]"] w2
  have A: "\<exists>q. inc wordPatterns [keyInfo, keyErr1] [keySecret] msgErr2 parser2 = Inr q
         \<and> dom (patterns q) = dom (patterns parser2)
         \<and> patterns q (msgKey wordPatterns msgErr2) = None"
    by blast
  then have A': "\<exists>q. inc wordPatterns [keyInfo, keyErr1] [keySecret] msgErr2 parser2 = Inr q
         \<and> dom (patterns q) = dom (patterns parser2)
         \<and> patterns q (msgKey wordPatterns msgErr2) = None
         \<and> patterns q keyErr1 = Some \<lparr>pattern = Some [''disk'', ''sda1'', ''failed''],
              sample = ''disk sda1 failed'', messages = 2\<rparr>"
    using step3 parser3_error by auto
  from inc_weak_equal_fallback [OF r1 h1, of "[keySecret]"] n1
  have B: "\<exists>q. inc wordPatterns [keyInfo] [keySecret] msgErr1 parser1 = Inr q
         \<and> patterns q = (patterns parser1)(msgKey wordPatterns msgErr1 \<mapsto>
               \<lparr>pattern = Some (NewPattern wordPatterns (Content msgErr1)), sample = Content msgErr1,
                 messages = 1\<rparr>)"
    by blast
  from r1 r2 have r: "runs wordPatterns parser0 parser1" "runs wordPatterns parser0 parser2"
    by (simp_all add: parser0_def)
  from r h2 parser2_absent parser2_enum(1) parser2_error A' h1 n1 B show ?thesis by blast
qed

text \<open>
  Claim C6 (low-signal handling). For a message of level Unknown, Debug or Info in a
  reachable state, \<open>inc\<close> returns; the map of patterns changes at the reserved key
  \<open>(level, "")\<close> only, whose stat is created with count 1 or has its count incremented;
  the callback, when installed, is called with the empty hash; and the sensitive stats
  afterwards are those that \<open>processSensitivePattern\<close> computes from the state before,
  for the pattern of the message's content.
\<close>

theorem inc_low_signal_reserved_key:
  assumes "Level msg = LevelUnknown \<or> Level msg = LevelDebug \<or> Level msg = LevelInfo"
    and "runs ops (fst (NewParser u c cb d pc)) p"
  shows "\<exists>q r. inc ops ks sks msg p = Inr q
      \<and> patterns q = (patterns p)(lowKey msg \<mapsto>
            (case patterns p (lowKey msg) of
               None \<Rightarrow> \<lparr>pattern = None, sample = [], messages = 1\<rparr>
             | Some st \<Rightarrow> st\<lparr>messages := messages st + 1\<rparr>))
      \<and> (\<forall>k. k \<noteq> lowKey msg \<longrightarrow> patterns q k = patterns p k)
      \<and> onMsgCb_calls q =
            (if onMsgCb p then onMsgCb_calls p @ [(Timestamp msg, Level msg, [], Content msg)]
             else onMsgCb_calls p)
      \<and> processSensitivePattern ops sks msg p (NewPattern ops (Content msg)) = Inr r
      \<and> sensitivePatterns q = sensitivePatterns r"
proof -
  let ?st = "case patterns p (lowKey msg) of
               None \<Rightarrow> \<lparr>pattern = None, sample = [], messages = 1\<rparr>
             | Some st \<Rightarrow> st\<lparr>messages := messages st + 1\<rparr>"
  let ?c = "(Timestamp msg, Level msg, [], Content msg)"
  from runs_invariants [OF assms(2) NewParser_invariants]
  have "sensitiveNonNil (sensitivePatterns p)" by simp
  from processSensitivePattern_total [OF this, of ops sks msg "NewPattern ops (Content msg)"]
  obtain r where r: "processSensitivePattern ops sks msg p (NewPattern ops (Content msg)) = Inr r"
    by blast
  let ?q = "callback ?c (r\<lparr>patterns := (patterns p)(lowKey msg \<mapsto> ?st)\<rparr>)"
  have q: "inc ops ks sks msg p = Inr ?q"
    unfolding inc_low [OF assms(1)] processSensitivePattern_commute r by simp
  from processSensitivePattern_frame [OF r]
  have "onMsgCb_calls ?q =
            (if onMsgCb p then onMsgCb_calls p @ [?c] else onMsgCb_calls p)"
    by (simp add: callback_def)
  moreover have "patterns ?q = (patterns p)(lowKey msg \<mapsto> ?st)" by simp
  moreover have "\<forall>k. k \<noteq> lowKey msg \<longrightarrow> patterns ?q k = patterns p k" by simp
  moreover have "sensitivePatterns ?q = sensitivePatterns r" by simp
  ultimately show ?thesis using q r by blast
qed

text \<open>
  A second Info line holding the secret, in \<open>parser2\<close>: the reserved Info stat goes to
  2, the Error stat is untouched, and the secret's sensitive stat goes to 2.
\<close>

theorem inc_low_signal_reserved_key_witness:
  "Level msgInfo = LevelInfo
   \<and> runs wordPatterns parser0 parser2
   \<and> (\<exists>q r. inc wordPatterns [keyInfo, keyErr1] [keySecret] msgInfo parser2 = Inr q
         \<and> patterns q keyInfo = Some \<lparr>pattern = None, sample = [], messages = 2\<rparr>
         \<and> patterns q keyErr1 = patterns parser2 keyErr1
         \<and> onMsgCb_calls q = onMsgCb_calls parser2 @ [(1, LevelInfo, [], ''login secret_code_789'')]
         \<and> processSensitivePattern wordPatterns [keySecret] msgInfo parser2
              (NewPattern wordPatterns (Content msgInfo)) = Inr r
         \<and> sensitivePatterns q = sensitivePatterns r
         \<and> map_option messages_s (sensitivePatterns r keySecret) = Some 2)"
proof -
  have r2: "runs wordPatterns (fst (NewParser (Inl UnmarshalError) (\<lambda>src. None) True False catalog1)) parser2"
    using runs_incAll [OF run2_valid run2_result] by (simp add: parser0_def)
  have l: "Level msgInfo = LevelInfo" by (simp add: msgInfo_def)
  then have l': "Level msgInfo = LevelUnknown \<or> Level msgInfo = LevelDebug \<or> Level msgInfo = LevelInfo"
    by simp
  have k: "lowKey msgInfo = keyInfo" "keyErr1 \<noteq> keyInfo" "onMsgCb parser2"
    "Timestamp msgInfo = 1" "Content msgInfo = ''login secret_code_789''"
    by (simp_all add: lowKey_def demo_defs)
  have s: "map_sum id (\<lambda>r. map_option messages_s (sensitivePatterns r keySecret))
             (processSensitivePattern wordPatterns [keySecret] msgInfo parser2
                (NewPattern wordPatterns (Content msgInfo))) = Inr (Some 2)"
    by (simp add: demo_defs)
  from inc_low_signal_reserved_key [OF l' r2, of "[keyInfo, keyErr1]" "[keySecret]"]
  obtain q r where
    q: "inc wordPatterns [keyInfo, keyErr1] [keySecret] msgInfo parser2 = Inr q"
    and p: "patterns q = (patterns parser2)(lowKey msgInfo \<mapsto>
            (case patterns parser2 (lowKey msgInfo) of
               None \<Rightarrow> \<lparr>pattern = None, sample = [], messages = 1\<rparr>
             | Some st \<Rightarrow> st\<lparr>messages := messages st + 1\<rparr>))"
    and o: "onMsgCb_calls q =
            (if onMsgCb parser2 then onMsgCb_calls parser2 @ [(Timestamp msgInfo, Level msgInfo, [], Content msgInfo)]
             else onMsgCb_calls parser2)"
    and r: "processSensitivePattern wordPatterns [keySecret] msgInfo parser2
              (NewPattern wordPatterns (Content msgInfo)) = Inr r"
    and e: "sensitivePatterns q = sensitivePatterns r"
    by blast
  from p k parser2_info have p1: "patterns q keyInfo = Some \<lparr>pattern = None, sample = [], messages = 2\<rparr>"
    by simp
  from p k have p2: "patterns q keyErr1 = patterns parser2 keyErr1" by simp
  from o k l have o1: "onMsgCb_calls q = onMsgCb_calls parser2 @ [(1, LevelInfo, [], ''login secret_code_789'')]"
    by simp
  from s r have s1: "map_option messages_s (sensitivePatterns r keySecret) = Some 2" by simp
  from r2 have "runs wordPatterns parser0 parser2" by (simp add: parser0_def)
  with l q p1 p2 o1 r e s1 show ?thesis by blast
qed

section \<open>Claims about the constructor and the cap\<close>

text \<open>
  Claim C5 (constructor failure semantics). The claim: \<open>NewParser\<close> returns an error if
  and only if the catalog fails to load and \<open>disableSensitive\<close> is false.
  \<open>NewParser\<close> (parser.go:63-117) has one result, the parser, and prints the error of
  \<open>LoadPatterns\<close> instead of returning it; TestNewParserErrorHandling takes two results,
  \<open>parser, err := NewParser(...)\<close>, and names the error path
  \<open>err != nil && !disableSensitiveDataDetection\<close>. With a catalog that does not
  unmarshal, detection enabled and no precompiled patterns, the call returns the empty
  parser \<open>testParser\<close> and prints the error.
\<close>

theorem NewParser_swallows_load_error:
  "LoadPatterns (Inl UnmarshalError) (\<lambda>src. None) = Inl UnmarshalError
   \<and> NewParser (Inl UnmarshalError) (\<lambda>src. None) False False [] = (testParser, [UnmarshalError])"
  by (simp add: LoadPatterns_def NewParser_def testParser_def)

text \<open>
  Claim C1 (cardinality cap). The claim: with cap \<open>L\<close> at most \<open>L\<close> non-overflow
  entries are stored per level, further patterns being counted in one stat under
  \<open>(level, "__unclassified__")\<close>. \<open>inc\<close> (parser.go:141-162) has no cap and \<open>Parser\<close>
  has no field for one. On the input of TestParserCardinalityLimit, which sets the cap to
  2, the four Error lines get four stats, and no stat is stored under the overflow key;
  the test expects two stats and an overflow stat with count 2.
\<close>

theorem inc_has_no_cardinality_cap:
  "validOrders wordPatterns testRun testParser
   \<and> map_sum id (GetCounters testKeys) (incAll wordPatterns testRun testParser) =
       Inr [\<lparr>Level_c = LevelError, Hash_c = ''#error/alpha/beta/gamma/'',
               Sample_c = ''error alpha beta gamma'', Messages_c = 1\<rparr>,
            \<lparr>Level_c = LevelError, Hash_c = ''#error/delta/epsilon/zeta/'',
               Sample_c = ''error delta epsilon zeta'', Messages_c = 1\<rparr>,
            \<lparr>Level_c = LevelError, Hash_c = ''#error/eta/theta/iota/'',
               Sample_c = ''error eta theta iota'', Messages_c = 1\<rparr>,
            \<lparr>Level_c = LevelError, Hash_c = ''#error/kappa/lambda/mu/'',
               Sample_c = ''error kappa lambda mu'', Messages_c = 1\<rparr>]
   \<and> map_sum id (\<lambda>p. enumerates testKeys (patterns p))
        (incAll wordPatterns testRun testParser) = Inr True
   \<and> map_sum id (\<lambda>p. patterns p \<lparr>level = LevelError, hash = ''__unclassified__''\<rparr>)
        (incAll wordPatterns testRun testParser) = Inr None"
  using testRun_eval by simp

end
